(* ===== verification/Prelude.thy ===== *)
theory Prelude
  imports Main
begin

text \<open>
  Shared vocabulary of the development: the result type of the Rust code's
  \<open>Result<T, String>\<close>, the combinator that stands for the \<open>?\<close> operator, and the
  generic facts on lists and options that several components use.
  Nothing here is about the program itself.
\<close>

section \<open>Results\<close>

text \<open>
  \<open>Result<T, E>\<close> is a sum: \<open>Inl\<close> carries the error, \<open>Inr\<close> the value.  Nearly every
  fallible function of the service answers a sentence as its error.
\<close>

type_synonym 'a outcome = "string + 'a"

definition and_then :: "'e + 'a \<Rightarrow> ('a \<Rightarrow> 'e + 'b) \<Rightarrow> 'e + 'b" where
  "and_then r f = (case r of Inl e \<Rightarrow> Inl e | Inr x \<Rightarrow> f x)"

definition map_err :: "('e \<Rightarrow> 'f) \<Rightarrow> 'e + 'a \<Rightarrow> 'f + 'a" where
  "map_err f r = (case r of Inl e \<Rightarrow> Inl (f e) | Inr x \<Rightarrow> Inr x)"

definition ok_or :: "'e \<Rightarrow> 'a option \<Rightarrow> 'e + 'a" where
  "ok_or e x = (case x of None \<Rightarrow> Inl e | Some y \<Rightarrow> Inr y)"

lemma and_then_simps [simp]:
  "and_then (Inl e) f = Inl e"
  "and_then (Inr x) f = f x"
  by (simp_all add: and_then_def)

lemma map_err_simps [simp]:
  "map_err f (Inl e) = Inl (f e)"
  "map_err f (Inr x) = Inr x"
  by (simp_all add: map_err_def)

lemma ok_or_simps [simp]:
  "ok_or e None = Inl e"
  "ok_or e (Some x) = Inr x"
  by (simp_all add: ok_or_def)

lemma and_then_cong [fundef_cong]:
  "r = r' \<Longrightarrow> (\<And>x. r' = Inr x \<Longrightarrow> f x = g x) \<Longrightarrow> and_then r f = and_then r' g"
  by (cases r') simp_all

lemma and_then_Inr_iff: "and_then r f = Inr y \<longleftrightarrow> (\<exists>x. r = Inr x \<and> f x = Inr y)"
  by (cases r) simp_all

lemma and_then_Inl_iff:
  "and_then r f = Inl e \<longleftrightarrow> r = Inl e \<or> (\<exists>x. r = Inr x \<and> f x = Inl e)"
  by (cases r) simp_all

lemma map_err_Inr_iff [simp]: "map_err f r = Inr x \<longleftrightarrow> r = Inr x"
  by (cases r) simp_all

lemma ok_or_Inr_iff [simp]: "ok_or e x = Inr y \<longleftrightarrow> x = Some y"
  by (cases x) simp_all

section \<open>Keeping the first of each key\<close>

text \<open>
  A filter that remembers the keys it has seen and keeps the first element of each: the
  shape of Rust's \<open>filter(|x| seen.push(..))\<close>.
\<close>

fun first_of_each :: "('a \<Rightarrow> 'k) \<Rightarrow> 'k list \<Rightarrow> 'a list \<Rightarrow> 'a list" where
  "first_of_each key seen [] = []"
| "first_of_each key seen (x # xs) =
     (if key x \<in> set seen then first_of_each key (seen @ [key x]) xs
      else x # first_of_each key (seen @ [key x]) xs)"

lemma first_of_each_keys:
  "key ` set (first_of_each key seen xs) = key ` set xs - set seen"
  by (induction key seen xs rule: first_of_each.induct) auto

lemma first_of_each_subset: "set (first_of_each key seen xs) \<subseteq> set xs"
  by (induction key seen xs rule: first_of_each.induct) auto

lemma first_of_each_distinct: "distinct (map key (first_of_each key seen xs))"
proof (induction key seen xs rule: first_of_each.induct)
  case (2 key seen x xs)
  have "key x \<notin> key ` set (first_of_each key (seen @ [key x]) xs)"
    by (simp add: first_of_each_keys)
  with 2 show ?case by simp
qed simp

lemma first_of_each_find:
  "x \<in> set (first_of_each key seen xs) \<Longrightarrow> find (\<lambda>y. key y = key x) xs = Some x"
proof (induction key seen xs rule: first_of_each.induct)
  case (2 key seen y ys)
  show ?case
  proof (cases "x = y \<and> key y \<notin> set seen")
    case True
    then show ?thesis by simp
  next
    case False
    with "2.prems" have rest: "x \<in> set (first_of_each key (seen @ [key y]) ys)"
      by (auto split: if_splits)
    then have "key x \<in> key ` set (first_of_each key (seen @ [key y]) ys)"
      by blast
    then have "key x \<noteq> key y"
      by (auto simp: first_of_each_keys)
    with rest "2.IH" show ?thesis by (auto split: if_splits)
  qed
qed simp

section \<open>Lists\<close>

lemma takeWhile_dropWhile_split:
  "dropWhile P xs = y # ys \<Longrightarrow> xs = takeWhile P xs @ y # ys \<and> \<not> P y"
  by (metis dropWhile_eq_Cons_conv takeWhile_dropWhile_id)

section \<open>Fuel\<close>

text \<open>
  An operation over fuel settles where the fuel only ever decides whether it answers: what it answers
  with some, it answers with any more.  Every composition of such operations is one.
\<close>

definition settles :: "(nat \<Rightarrow> 'a option) \<Rightarrow> bool" where
  "settles f \<longleftrightarrow> (\<forall>n m x. f n = Some x \<longrightarrow> n \<le> m \<longrightarrow> f m = Some x)"

named_theorems settling "operations over fuel that settle"

lemma settlesD: "settles f \<Longrightarrow> f n = Some x \<Longrightarrow> n \<le> m \<Longrightarrow> f m = Some x"
  unfolding settles_def by blast

lemma settlesI:
  assumes "\<And>n x. f n = Some x \<Longrightarrow> f (Suc n) = Some x"
  shows "settles f"
  unfolding settles_def
proof (intro allI impI)
  fix n m x
  assume "f n = Some x" "n \<le> m"
  from this(2,1) show "f m = Some x"
  proof (induction rule: dec_induct)
    case (step k)
    then show ?case using assms by blast
  qed
qed

lemma settles_const [settling]: "settles (\<lambda>n. c)"
  by (simp add: settles_def)

lemma settles_map [settling]: "settles f \<Longrightarrow> settles (\<lambda>n. map_option g (f n))"
  unfolding settles_def map_option_eq_Some by blast

end
