(* ===== verification/Rust_Text.thy ===== *)
theory Rust_Text
  imports Prelude "HOL-Library.Word" "HOL-Library.Sublist"
begin

text \<open>
  The operations of Rust's \<open>str\<close> and of its number formatting and parsing that the service
  calls.  A \<open>String\<close> is its UTF-8 bytes, one \<open>char\<close> each, so \<open>length\<close> is Rust's
  \<open>len\<close> and comparison is Rust's byte-wise \<open>Ord\<close>.  \<open>trim\<close> removes every code point with
  the Unicode property White\_Space, recognised by its UTF-8 encoding.
\<close>

section \<open>Prefixes and splitting\<close>

definition starts_with :: "string \<Rightarrow> string \<Rightarrow> bool" where
  "starts_with s p \<longleftrightarrow> take (length p) s = p"

lemma starts_with_iff: "starts_with s p \<longleftrightarrow> (\<exists>t. s = p @ t)"
  unfolding starts_with_def by (metis append_eq_conv_conj append_take_drop_id)

lemma starts_with_append [simp]: "starts_with (p @ s) p"
  by (simp add: starts_with_def)

lemma starts_with_mono: "starts_with r p \<Longrightarrow> starts_with (r @ t) p"
  by (auto simp: starts_with_iff)

text \<open>\<open>str::split\<close> on a set of characters: always at least one part.\<close>

fun split_when :: "(char \<Rightarrow> bool) \<Rightarrow> string \<Rightarrow> string list" where
  "split_when P [] = [[]]"
| "split_when P (c # cs) =
     (if P c then [] # split_when P cs
      else (case split_when P cs of [] \<Rightarrow> [[c]] | part # parts \<Rightarrow> (c # part) # parts))"

lemma split_when_nonempty [simp]: "split_when P s \<noteq> []"
  by (induction P s rule: split_when.induct) (auto split: list.splits)

lemma split_when_clean: "\<forall>part \<in> set (split_when P s). \<forall>c \<in> set part. \<not> P c"
proof (induction s)
  case (Cons c cs)
  then show ?case by (cases "split_when P cs") simp_all
qed simp

lemma split_when_none: "(\<And>c. c \<in> set s \<Longrightarrow> \<not> P c) \<Longrightarrow> split_when P s = [s]"
  by (induction P s rule: split_when.induct) auto

lemma split_when_append:
  "(\<And>c. c \<in> set s \<Longrightarrow> \<not> P c) \<Longrightarrow> P d \<Longrightarrow> split_when P (s @ d # t) = s # split_when P t"
  by (induction s) auto

lemma hd_split_when: "hd (split_when P s) = takeWhile (\<lambda>c. \<not> P c) s"
  by (induction P s rule: split_when.induct) (auto split: list.splits)

text \<open>\<open>[..].join(sep)\<close>.\<close>

fun join_with :: "string \<Rightarrow> string list \<Rightarrow> string" where
  "join_with sep [] = []"
| "join_with sep [x] = x"
| "join_with sep (x # y # ys) = x @ sep @ join_with sep (y # ys)"

lemma split_join:
  assumes "parts \<noteq> []" "\<And>part c. part \<in> set parts \<Longrightarrow> c \<in> set part \<Longrightarrow> \<not> P c" "P d"
  shows "split_when P (join_with [d] parts) = parts"
  using assms
proof (induction "[d]" parts rule: join_with.induct)
  case (3 x y ys)
  then have "split_when P (join_with [d] (y # ys)) = y # ys" by auto
  moreover have "\<And>c. c \<in> set x \<Longrightarrow> \<not> P c" using 3 by auto
  ultimately show ?case using 3 by (simp add: split_when_append [of x])
qed (auto simp: split_when_none)

text \<open>\<open>str::split_once\<close> on a pattern, the first occurrence; \<open>str::rsplit_once\<close> on a
  character, the last one.\<close>

fun split_once :: "string \<Rightarrow> string \<Rightarrow> (string \<times> string) option" where
  "split_once pat s =
     (if starts_with s pat then Some ([], drop (length pat) s)
      else case s of [] \<Rightarrow> None
           | c # cs \<Rightarrow> map_option (\<lambda>(a, b). (c # a, b)) (split_once pat cs))"

declare split_once.simps [simp del]

lemma split_once_Some: "split_once pat s = Some (a, b) \<Longrightarrow> s = a @ pat @ b"
proof (induction pat s arbitrary: a rule: split_once.induct)
  case (1 pat s)
  show ?case
  proof (cases "starts_with s pat")
    case True
    then show ?thesis using 1(2) by (auto simp: split_once.simps [of pat s] starts_with_iff)
  next
    case False
    then show ?thesis using 1 by (auto simp: split_once.simps [of pat s] split: list.splits)
  qed
qed

definition rsplit_once :: "char \<Rightarrow> string \<Rightarrow> (string \<times> string) option" where
  "rsplit_once c s =
     (case dropWhile (\<lambda>d. d \<noteq> c) (rev s) of
        [] \<Rightarrow> None
      | _ # front \<Rightarrow> Some (rev front, rev (takeWhile (\<lambda>d. d \<noteq> c) (rev s))))"

lemma rsplit_once_append: "c \<notin> set t \<Longrightarrow> rsplit_once c (s @ c # t) = Some (s, t)"
proof -
  assume c: "c \<notin> set t"
  have d: "dropWhile (\<lambda>d. d \<noteq> c) (rev t @ c # rev s) = c # rev s"
    using c by (subst dropWhile_append2) auto
  have t: "takeWhile (\<lambda>d. d \<noteq> c) (rev t @ c # rev s) = rev t"
    using c by (subst takeWhile_append2) auto
  show ?thesis by (simp add: rsplit_once_def d t)
qed

lemma rsplit_once_None: "rsplit_once c s = None \<longleftrightarrow> c \<notin> set s"
proof
  assume none: "rsplit_once c s = None"
  show "c \<notin> set s"
  proof
    assume "c \<in> set s"
    then obtain x y where "s = x @ c # y" "c \<notin> set y"
      by (meson split_list_last)
    with none show False by (simp add: rsplit_once_append)
  qed
next
  assume "c \<notin> set s"
  then have "dropWhile (\<lambda>d. d \<noteq> c) (rev s) = []"
    by (auto simp: dropWhile_eq_Nil_conv)
  then show "rsplit_once c s = None"
    by (simp only: rsplit_once_def list.case)
qed

lemma rsplit_once_Some: "rsplit_once c s = Some (a, b) \<Longrightarrow> s = a @ c # b \<and> c \<notin> set b"
proof -
  assume some: "rsplit_once c s = Some (a, b)"
  then have "c \<in> set s" by (metis rsplit_once_None option.distinct(1))
  then obtain x y where s: "s = x @ c # y" and y: "c \<notin> set y"
    by (meson split_list_last)
  from some show ?thesis using y by (simp add: s rsplit_once_append)
qed

text \<open>\<open>str::replace\<close> of one character by a text.\<close>

definition replace_char :: "char \<Rightarrow> string \<Rightarrow> string \<Rightarrow> string" where
  "replace_char c r s = concat (map (\<lambda>x. if x = c then r else [x]) s)"

lemma replace_char_simps [simp]:
  "replace_char c r [] = []"
  "replace_char c r (x # xs) = (if x = c then r else [x]) @ replace_char c r xs"
  "replace_char c r (xs @ ys) = replace_char c r xs @ replace_char c r ys"
  by (simp_all add: replace_char_def)

section \<open>Trimming\<close>

definition white_space :: "string list" where
  "white_space =
     [[CHR 0x09], [CHR 0x0A], [CHR 0x0B], [CHR 0x0C], [CHR 0x0D], [CHR 0x20],
      [CHR 0xC2, CHR 0x85], [CHR 0xC2, CHR 0xA0], [CHR 0xE1, CHR 0x9A, CHR 0x80],
      [CHR 0xE2, CHR 0x80, CHR 0x80], [CHR 0xE2, CHR 0x80, CHR 0x81],
      [CHR 0xE2, CHR 0x80, CHR 0x82], [CHR 0xE2, CHR 0x80, CHR 0x83],
      [CHR 0xE2, CHR 0x80, CHR 0x84], [CHR 0xE2, CHR 0x80, CHR 0x85],
      [CHR 0xE2, CHR 0x80, CHR 0x86], [CHR 0xE2, CHR 0x80, CHR 0x87],
      [CHR 0xE2, CHR 0x80, CHR 0x88], [CHR 0xE2, CHR 0x80, CHR 0x89],
      [CHR 0xE2, CHR 0x80, CHR 0x8A], [CHR 0xE2, CHR 0x80, CHR 0xA8],
      [CHR 0xE2, CHR 0x80, CHR 0xA9], [CHR 0xE2, CHR 0x80, CHR 0xAF],
      [CHR 0xE2, CHR 0x81, CHR 0x9F], [CHR 0xE3, CHR 0x80, CHR 0x80]]"

definition leading :: "string list \<Rightarrow> string \<Rightarrow> string option" where
  "leading ws s = find (\<lambda>w. w \<noteq> [] \<and> starts_with s w) ws"

lemma leading_Some: "leading ws s = Some w \<Longrightarrow> w \<noteq> [] \<and> (\<exists>t. s = w @ t)"
  by (auto simp: leading_def find_Some_iff starts_with_iff)

function trim_front :: "string list \<Rightarrow> string \<Rightarrow> string" where
  "trim_front ws s =
     (case leading ws s of None \<Rightarrow> s | Some w \<Rightarrow> trim_front ws (drop (length w) s))"
  by pat_completeness auto
termination
  by (relation "measure (\<lambda>(ws, s). length s)") (auto dest: leading_Some)

declare trim_front.simps [simp del]

lemma leading_trim_front: "leading ws (trim_front ws s) = None"
proof (induction ws s rule: trim_front.induct)
  case (1 ws s)
  then show ?case
    by (cases "leading ws s") (simp_all add: trim_front.simps [of ws s])
qed

lemma trim_front_suffix: "\<exists>t. s = t @ trim_front ws s"
proof (induction ws s rule: trim_front.induct)
  case (1 ws s)
  show ?case
  proof (cases "leading ws s")
    case None
    then show ?thesis by (simp add: trim_front.simps [of ws s])
  next
    case (Some w)
    then obtain t where t: "drop (length w) s = t @ trim_front ws (drop (length w) s)"
      using "1.IH" by blast
    have "s = take (length w) s @ drop (length w) s" by simp
    then have "s = (take (length w) s @ t) @ trim_front ws s"
      using t Some by (simp add: trim_front.simps [of ws s])
    then show ?thesis by blast
  qed
qed

lemma trim_front_idle: "leading ws s = None \<Longrightarrow> trim_front ws s = s"
  by (simp add: trim_front.simps [of ws s])

definition trim :: "string \<Rightarrow> string" where
  "trim s = rev (trim_front (map rev white_space) (rev (trim_front white_space s)))"

lemma leading_prefix: "leading ws (r @ t) = None \<Longrightarrow> leading ws r = None"
  by (auto simp: leading_def find_None_iff intro: starts_with_mono)

lemma leading_trim:
  "leading white_space (trim s) = None"
  "leading (map rev white_space) (rev (trim s)) = None"
proof -
  let ?f = "trim_front white_space s"
  obtain t where "rev ?f = t @ trim_front (map rev white_space) (rev ?f)"
    using trim_front_suffix by blast
  then have "?f = trim s @ rev t"
    unfolding trim_def by (metis rev_append rev_rev_ident)
  moreover have "leading white_space ?f = None"
    by (rule leading_trim_front)
  ultimately show "leading white_space (trim s) = None"
    by (metis leading_prefix)
  show "leading (map rev white_space) (rev (trim s)) = None"
    by (simp add: trim_def leading_trim_front)
qed

lemma trim_trim [simp]: "trim (trim s) = trim s"
proof -
  have a: "trim_front white_space (trim s) = trim s"
    by (rule trim_front_idle, rule leading_trim)
  have b: "trim_front (map rev white_space) (rev (trim s)) = rev (trim s)"
    by (rule trim_front_idle, rule leading_trim)
  show ?thesis unfolding trim_def [of "trim s"] by (simp add: a b)
qed

lemma trim_Nil [simp]: "trim [] = []"
proof -
  have "leading ws [] = None" for ws
    by (auto simp: leading_def find_None_iff starts_with_def)
  then show ?thesis by (simp add: trim_def trim_front_idle)
qed

lemma set_trim_front: "set (trim_front ws s) \<subseteq> set s"
  using trim_front_suffix [of s ws] by (metis Un_iff set_append subsetI)

lemma set_trim: "set (trim s) \<subseteq> set s"
  unfolding trim_def using set_trim_front [of "map rev white_space" "rev (trim_front white_space s)"]
    set_trim_front [of white_space s] by auto

section \<open>Numbers as text\<close>

definition digit_char :: "nat \<Rightarrow> char" where
  "digit_char d = char_of (48 + d)"

fun decimal :: "nat \<Rightarrow> string" where
  "decimal n = (if n < 10 then [digit_char n] else decimal (n div 10) @ [digit_char (n mod 10)])"

declare decimal.simps [simp del]

definition digit_value :: "char \<Rightarrow> nat option" where
  "digit_value c =
     (let v = of_char c in if 48 \<le> v \<and> v \<le> (57::nat) then Some (v - 48) else None)"

lemma digit_value_digit_char [simp]: "d < 10 \<Longrightarrow> digit_value (digit_char d) = Some d"
  by (simp add: digit_value_def digit_char_def of_char_of)

text \<open>
  \<open>u16::from_str\<close>: an optional \<open>+\<close>, at least one digit, nothing else, and no value above
  65535 (\<open>checked_mul\<close> and \<open>checked_add\<close> at every digit).
\<close>

fun u16_digits :: "nat \<Rightarrow> string \<Rightarrow> nat option" where
  "u16_digits acc [] = Some acc"
| "u16_digits acc (c # cs) =
     (case digit_value c of
        None \<Rightarrow> None
      | Some d \<Rightarrow> if acc * 10 + d \<le> 65535 then u16_digits (acc * 10 + d) cs else None)"

definition parse_u16 :: "string \<Rightarrow> 16 word option" where
  "parse_u16 s =
     (let ds = (case s of CHR ''+'' # cs \<Rightarrow> cs | _ \<Rightarrow> s)
      in if ds = [] then None else map_option word_of_nat (u16_digits 0 ds))"

lemma u16_digits_append:
  "u16_digits acc (xs @ ys) = Option.bind (u16_digits acc xs) (\<lambda>a. u16_digits a ys)"
  by (induction acc xs rule: u16_digits.induct) (auto split: option.splits)

lemma decimal_nonempty [simp]: "decimal n \<noteq> []"
  by (subst decimal.simps) simp

lemma u16_digits_decimal: "n \<le> 65535 \<Longrightarrow> u16_digits 0 (decimal n) = Some n"
proof (induction n rule: decimal.induct)
  case (1 n)
  show ?case
  proof (cases "n < 10")
    case True
    then show ?thesis by (subst decimal.simps) simp
  next
    case False
    then have "u16_digits 0 (decimal (n div 10)) = Some (n div 10)"
      using 1 by simp
    moreover have "n div 10 * 10 + n mod 10 = n" by simp
    ultimately show ?thesis using False "1.prems"
      by (subst decimal.simps) (simp add: u16_digits_append)
  qed
qed

lemma decimal_digits: "c \<in> set (decimal n) \<Longrightarrow> \<exists>d<10. c = digit_char d"
proof (induction n rule: decimal.induct)
  case (1 n)
  show ?case
  proof (cases "n < 10")
    case True
    with "1.prems" show ?thesis by (auto simp: decimal.simps [of n])
  next
    case False
    with "1.prems" have "c \<in> set (decimal (n div 10)) \<or> c = digit_char (n mod 10)"
      by (auto simp: decimal.simps [of n])
    moreover have "n mod 10 < 10" by simp
    ultimately show ?thesis using "1.IH" False by blast
  qed
qed

lemma digit_char_neq:
  "d < 10 \<Longrightarrow> of_char c < (48::nat) \<or> 57 < (of_char c :: nat) \<Longrightarrow> digit_char d \<noteq> c"
  by (auto simp: digit_char_def of_char_of)

lemma decimal_only_digits:
  "of_char c < (48::nat) \<or> 57 < (of_char c :: nat) \<Longrightarrow> c \<notin> set (decimal n)"
  using decimal_digits digit_char_neq by blast

lemma parse_u16_decimal: "n \<le> 65535 \<Longrightarrow> parse_u16 (decimal n) = Some (word_of_nat n)"
proof -
  assume n: "n \<le> 65535"
  have plus: "CHR ''+'' \<notin> set (decimal n)"
    by (rule decimal_only_digits) simp
  obtain c cs where d: "decimal n = c # cs"
    using decimal_nonempty by (metis list.exhaust)
  have "c \<noteq> CHR ''+''" using plus d by auto
  then have "(case decimal n of CHR ''+'' # cs \<Rightarrow> cs | _ \<Rightarrow> decimal n) = decimal n"
    unfolding d by (auto split: char.splits bool.splits)
  then show ?thesis
    by (simp add: parse_u16_def u16_digits_decimal n)
qed

section \<open>Durations as text\<close>

text \<open>
  \<open>Duration\<close>'s \<open>Debug\<close>: the largest unit the duration fills, with the digits of its fraction up to
  the last that is not zero.
\<close>

fun fraction_digits :: "nat \<Rightarrow> nat \<Rightarrow> string" where
  "fraction_digits divisor part =
     (if divisor = 0 \<or> part = 0 then []
      else digit_char (part div divisor) # fraction_digits (divisor div 10) (part mod divisor))"

declare fraction_digits.simps [simp del]

definition with_fraction :: "nat \<Rightarrow> nat \<Rightarrow> nat \<Rightarrow> string" where
  "with_fraction whole part divisor =
     (let digits = fraction_digits divisor part
      in decimal whole @ (if digits = [] then [] else CHR ''.'' # digits))"

definition debug_duration :: "nat \<Rightarrow> string" where
  "debug_duration ns =
     (if 1000000000 \<le> ns then
        with_fraction (ns div 1000000000) (ns mod 1000000000) 100000000 @ ''s''
      else if 1000000 \<le> ns then with_fraction (ns div 1000000) (ns mod 1000000) 100000 @ ''ms''
      else if 1000 \<le> ns then
        with_fraction (ns div 1000) (ns mod 1000) 100 @ [CHR 0xC2, CHR 0xB5, CHR ''s'']
      else decimal ns @ ''ns'')"

end
