(* ===== verification/Rust_Path.thy ===== *)
theory Rust_Path
  imports Rust_Text
begin

text \<open>
  \<open>std::path::Path\<close> on Unix, as the components Rust compares paths by: whether the path is
  rooted, and its parts, with empty parts and \<open>.\<close> dropped but for a leading \<open>.\<close> of a path that is
  not rooted.  \<open>path_of\<close> reads a text as a path and \<open>display\<close> writes one with single
  separators; the operations are the ones the service uses.  Windows' prefixes and separators are
  not modelled.
\<close>

datatype path = Path (rooted: bool) (parts: "string list")

definition path_of :: "string \<Rightarrow> path" where
  "path_of s =
     (let raw = split_when (\<lambda>c. c = CHR ''/'') s;
          named = filter (\<lambda>p. p \<noteq> [] \<and> p \<noteq> ''.'') raw
      in if starts_with s ''/'' then Path True named
         else if hd raw = ''.'' then Path False (''.'' # named)
         else Path False named)"

definition display :: "path \<Rightarrow> string" where
  "display p = (if rooted p then ''/'' else []) @ join_with ''/'' (parts p)"

definition parent :: "path \<Rightarrow> path option" where
  "parent p = (if parts p = [] then None else Some (Path (rooted p) (butlast (parts p))))"

definition file_name :: "path \<Rightarrow> string option" where
  "file_name p =
     (if parts p = [] \<or> last (parts p) = ''..'' \<or> last (parts p) = ''.'' then None
      else Some (last (parts p)))"

definition uncurrent :: "string list \<Rightarrow> string list" where
  "uncurrent ps = (case ps of [] \<Rightarrow> [] | p # rest \<Rightarrow> if p = ''.'' then rest else ps)"

definition join_path :: "path \<Rightarrow> path \<Rightarrow> path" where
  "join_path p q =
     (if rooted q then q
      else if parts p = [] \<and> \<not> rooted p then q
      else Path (rooted p) (parts p @ uncurrent (parts q)))"

definition empty_path :: path where
  "empty_path = Path False []"

text \<open>\<open>std::path::absolute\<close> in the working directory \<open>cwd\<close>.\<close>

definition absolute :: "path \<Rightarrow> path \<Rightarrow> path outcome" where
  "absolute cwd p =
     (if p = empty_path then Inl ''cannot make an empty path absolute''
      else if rooted p then Inr p
      else Inr (join_path cwd p))"

section \<open>Facts\<close>

definition is_part :: "string \<Rightarrow> bool" where
  "is_part n \<longleftrightarrow> n \<noteq> [] \<and> n \<noteq> ''.'' \<and> CHR ''/'' \<notin> set n"

definition wf_path :: "path \<Rightarrow> bool" where
  "wf_path p \<longleftrightarrow>
     list_all is_part (if rooted p then parts p else uncurrent (parts p))"

lemma uncurrent_simps [simp]:
  "uncurrent [] = []"
  "uncurrent (''.'' # ps) = ps"
  "p \<noteq> ''.'' \<Longrightarrow> uncurrent (p # ps) = p # ps"
  by (simp_all add: uncurrent_def)

lemma uncurrent_parts: "list_all is_part ps \<Longrightarrow> uncurrent ps = ps"
  by (cases ps) (auto simp: is_part_def uncurrent_def)

lemma path_of_wf: "wf_path (path_of s)"
proof -
  let ?raw = "split_when (\<lambda>c. c = CHR ''/'') s"
  let ?named = "filter (\<lambda>p. p \<noteq> [] \<and> p \<noteq> ''.'') ?raw"
  have named: "list_all is_part ?named"
    using split_when_clean [of "\<lambda>c. c = CHR ''/''" s] by (auto simp: list_all_iff is_part_def)
  then show ?thesis
    by (auto simp: path_of_def Let_def wf_path_def uncurrent_parts)
qed

lemma join_parts_no_slash_start:
  "list_all is_part ps \<Longrightarrow> \<not> starts_with (join_with ''/'' ps) ''/''"
proof (cases ps)
  case (Cons n rest)
  moreover assume "list_all is_part ps"
  ultimately show ?thesis
    by (cases rest; cases n) (auto simp: starts_with_def is_part_def)
qed (simp add: starts_with_def)

lemma split_slash_join:
  "list_all is_part ps \<Longrightarrow> ps \<noteq> [] \<Longrightarrow>
     split_when (\<lambda>c. c = CHR ''/'') (join_with ''/'' ps) = ps"
  by (rule split_join) (auto simp: list_all_iff is_part_def)

lemma filter_parts: "list_all is_part ps \<Longrightarrow> filter (\<lambda>p. p \<noteq> [] \<and> p \<noteq> ''.'') ps = ps"
  by (induction ps) (auto simp: is_part_def)

lemma path_of_display_rooted:
  assumes "list_all is_part ps"
  shows "path_of (display (Path True ps)) = Path True ps"
proof (cases "ps = []")
  case True
  then show ?thesis by (simp add: display_def path_of_def starts_with_def Let_def)
next
  case False
  then have "split_when (\<lambda>c. c = CHR ''/'') (''/'' @ join_with ''/'' ps) = [] # ps"
    using split_slash_join [OF assms] by simp
  then show ?thesis
    using filter_parts [OF assms]
    by (simp add: display_def path_of_def starts_with_def Let_def)
qed

lemma path_of_display_relative:
  assumes "list_all is_part ps" "ps \<noteq> []"
  shows "path_of (display (Path False ps)) = Path False ps"
proof -
  have "hd ps \<noteq> ''.''" using assms by (cases ps) (auto simp: is_part_def)
  then show ?thesis
    using split_slash_join [OF assms] filter_parts [OF assms(1)] join_parts_no_slash_start [OF assms(1)]
    by (simp add: display_def path_of_def Let_def)
qed

lemma butlast_parts: "list_all P ps \<Longrightarrow> list_all P (butlast ps)"
  by (auto simp: list_all_iff dest: in_set_butlastD)

lemma uncurrent_butlast: "ps \<noteq> [''.''] \<Longrightarrow> uncurrent (butlast ps) = butlast (uncurrent ps)"
  by (cases ps) (auto simp: uncurrent_def)

lemma parent_wf: "wf_path p \<Longrightarrow> parent p = Some q \<Longrightarrow> wf_path q"
  by (cases "parts p = [''.'']")
     (auto simp: parent_def wf_path_def uncurrent_butlast butlast_parts split: if_splits)

lemma parent_join:
  "is_part n \<Longrightarrow> parent (join_path p (Path False [n])) = Some p"
  by (cases p) (auto simp: parent_def join_path_def is_part_def uncurrent_def)

end
