(* ===== verification/Effects.thy ===== *)
theory Effects
  imports Rust_Path "HOL-Library.List_Lexorder" "HOL-Library.Char_ord"
begin

text \<open>
  What the service does to the world, as values.  Every operation of the program takes the
  list of the effects so far, its \<^emph>\<open>trace\<close>, and returns the longer trace; whatever the
  world answers (a clock, a write that may be refused, a record the audit may not keep) is a
  function of the trace so far, a parameter of the model, so it may answer differently each time it
  is asked.  The helpers \<open>fail\<close>, \<open>record\<close> and \<open>kept\<close> of \<open>run.rs\<close> and the exit
  codes are here, with the contract every print-or-refuse mode of the program keeps.
\<close>

section \<open>Effects and traces\<close>

text \<open>The phases of \<open>xmip_core::ExecutionPhase\<close> the service records.\<close>

datatype phase = Begin | Finished

text \<open>
  One call of the audit: \<open>ProgramAudit::failed(action, problem)\<close>, or
  \<open>ProgramAudit::record(action, phase, Information, None, properties)\<close>.
\<close>

datatype audit_entry =
    Failure string string
  | Event string phase "(string \<times> string) list"

text \<open>
  What the Windows Service Control Manager is told of the service, as \<open>ServiceStatus\<close>: the state,
  the controls it takes, the exit code and how many seconds the manager is to wait.
\<close>

datatype service_state = Start_pending | Running_state | Stop_pending | Stopped_state

datatype service_control = Stop_control | Shutdown_control | Interrogate_control | Other_control

datatype service_exit = Win32 nat | Service_specific nat

record service_status =
  current_state :: service_state
  controls_accepted :: "service_control list"
  service_exit_code :: service_exit
  wait_hint :: nat

datatype effect =
    Println string          \<comment> \<open>\<open>println!\<close>\<close>
  | Print string            \<comment> \<open>\<open>print!\<close>\<close>
  | Eprintln string         \<comment> \<open>\<open>eprintln!\<close>\<close>
  | Audited audit_entry     \<comment> \<open>a call of the audit\<close>
  | Located string          \<comment> \<open>\<open>ProgramAudit::locate\<close>\<close>
  | Looked                  \<comment> \<open>\<open>Instant::now\<close> or \<open>Instant::elapsed\<close>\<close>
  | Slept nat               \<comment> \<open>\<open>thread::sleep\<close>, nanoseconds\<close>
  | Waited nat              \<comment> \<open>\<open>Receiver::recv_timeout\<close>, at most so many nanoseconds\<close>
  | Wrote string string     \<comment> \<open>\<open>publication::write_atomic(path, text)\<close>, asked\<close>
  | Posted string           \<comment> \<open>\<open>Board::post\<close>\<close>
  | Started                 \<comment> \<open>\<open>Running::start\<close>\<close>
  | Listened                \<comment> \<open>\<open>Running::operate\<close>\<close>
  | Watched string          \<comment> \<open>\<open>orders::watch\<close>: the place made and watched\<close>
  | Unwatched               \<comment> \<open>\<open>drop(watch)\<close>\<close>
  | Declared "(string \<times> string) list"  \<comment> \<open>\<open>Declaration::declare\<close>, what it says\<close>
  | Undeclared              \<comment> \<open>\<open>drop(declared)\<close>\<close>
  | Orders_taken            \<comment> \<open>\<open>Order::take\<close>: the orders left, taken\<close>
  | Applied string          \<comment> \<open>one order applied, what it said\<close>
  | Ready                   \<comment> \<open>the \<open>ready\<close> closure: the node accepts work\<close>
  | Stopping                \<comment> \<open>the \<open>stopping\<close> closure: a stop arrived\<close>
  | Drained                 \<comment> \<open>\<open>Running::stop\<close>\<close>
  | Reported service_status \<comment> \<open>\<open>set_service_status\<close>, asked\<close>
  | Notified string         \<comment> \<open>a datagram to systemd\<close>
  | Ran string "string list" \<comment> \<open>\<open>Command::output\<close>\<close>
  | Saved path string       \<comment> \<open>\<open>fs::write\<close>, done\<close>
  | Removed path            \<comment> \<open>\<open>fs::remove_file\<close>, done\<close>
  | Made path               \<comment> \<open>\<open>fs::create_dir_all\<close>, done\<close>
  | Called string           \<comment> \<open>a call into a library the service only calls\<close>

type_synonym trace = "effect list"

text \<open>
  The audit's sink: \<open>None\<close> where it or the operating system's log kept the record, else
  the words of the error.
\<close>

type_synonym sink = "trace \<Rightarrow> audit_entry \<Rightarrow> string option"

definition failed_action :: "effect \<Rightarrow> string option" where
  "failed_action e = (case e of Audited (Failure action _) \<Rightarrow> Some action | _ \<Rightarrow> None)"

definition failures :: "trace \<Rightarrow> string list" where
  "failures tr = List.map_filter failed_action tr"

lemma failures_simps [simp]:
  "failures [] = []"
  "failures (xs @ ys) = failures xs @ failures ys"
  by (simp_all add: failures_def List.map_filter_def)

lemma failures_Cons:
  "failures (e # es) = (case failed_action e of None \<Rightarrow> failures es | Some a \<Rightarrow> a # failures es)"
  by (simp add: failures_def List.map_filter_def split: option.splits)

lemma failures_single [simp]:
  "failures [Audited (Failure a p)] = [a]"
  "failures (Audited (Failure a p) # es) = a # failures es"
  by (simp_all add: failures_Cons failed_action_def)

lemma failures_skip [simp]:
  "failed_action e = None \<Longrightarrow> failures (e # es) = failures es"
  by (simp add: failures_Cons)

lemma failed_action_simps [simp]:
  "failed_action (Println s) = None" "failed_action (Print s) = None"
  "failed_action (Eprintln s) = None" "failed_action (Audited (Event a p ps)) = None"
  "failed_action (Audited (Failure a q)) = Some a"
  "failed_action (Located s) = None" "failed_action Looked = None"
  "failed_action (Slept n) = None" "failed_action (Waited n) = None"
  "failed_action (Wrote s t) = None" "failed_action (Posted s) = None"
  "failed_action Started = None" "failed_action Listened = None"
  "failed_action (Watched s) = None"
  "failed_action Unwatched = None" "failed_action (Declared ds) = None"
  "failed_action Undeclared = None" "failed_action Orders_taken = None"
  "failed_action (Applied s) = None" "failed_action Ready = None"
  "failed_action Stopping = None" "failed_action Drained = None"
  "failed_action (Reported st) = None" "failed_action (Notified s) = None"
  "failed_action (Ran s as) = None" "failed_action (Called s) = None"
  "failed_action (Saved path s) = None" "failed_action (Removed path) = None"
  "failed_action (Made path) = None"
  by (simp_all add: failed_action_def)

section \<open>Properties of a record: a \<open>BTreeMap\<close>\<close>

text \<open>Sorted by key, one value each; inserting a key again replaces its value.\<close>

fun btree_insert :: "string \<Rightarrow> string \<Rightarrow> (string \<times> string) list \<Rightarrow> (string \<times> string) list" where
  "btree_insert k v [] = [(k, v)]"
| "btree_insert k v ((k', v') # rest) =
     (if k = k' then (k, v) # rest
      else if k < k' then (k, v) # (k', v') # rest
      else (k', v') # btree_insert k v rest)"

definition btree_map :: "(string \<times> string) list \<Rightarrow> (string \<times> string) list" where
  "btree_map ps = fold (\<lambda>(k, v). btree_insert k v) ps []"

lemma btree_insert_keys: "fst ` set (btree_insert k v m) = insert k (fst ` set m)"
  by (induction k v m rule: btree_insert.induct) auto

lemma btree_insert_sorted:
  "sorted_wrt (<) (map fst m) \<Longrightarrow> sorted_wrt (<) (map fst (btree_insert k v m))"
proof (induction k v m rule: btree_insert.induct)
  case (2 k v k' v' rest)
  show ?case
  proof (cases "k = k' \<or> k < k'")
    case True
    then show ?thesis using "2.prems" by (auto intro: less_trans)
  next
    case False
    then have "k' < k" by (meson linorder_less_linear)
    moreover have "\<forall>x \<in> fst ` set rest. k' < x" using "2.prems" by simp
    ultimately have "\<forall>x \<in> fst ` set (btree_insert k v rest). k' < x"
      by (simp add: btree_insert_keys)
    then show ?thesis using False 2 by simp
  qed
qed simp

lemma btree_insert_lookup:
  "sorted_wrt (<) (map fst m) \<Longrightarrow> map_of (btree_insert k v m) = (map_of m)(k \<mapsto> v)"
  by (induction k v m rule: btree_insert.induct) (auto simp: fun_eq_iff)

lemma btree_map_fold:
  "sorted_wrt (<) (map fst m) \<Longrightarrow>
     sorted_wrt (<) (map fst (fold (\<lambda>(k, v). btree_insert k v) ps m))
     \<and> map_of (fold (\<lambda>(k, v). btree_insert k v) ps m) = map_of m ++ map_of (rev ps)"
proof (induction ps arbitrary: m)
  case (Cons p ps)
  obtain k v where p: "p = (k, v)" by (cases p)
  have "sorted_wrt (<) (map fst (btree_insert k v m))"
    using Cons.prems by (rule btree_insert_sorted)
  from Cons.IH [OF this] show ?case
    using Cons.prems by (simp add: p btree_insert_lookup map_add_def fun_eq_iff split: option.splits)
qed simp

lemma btree_map_sorted: "sorted_wrt (<) (map fst (btree_map ps))"
  using btree_map_fold [of "[]" ps] by (simp add: btree_map_def)

lemma btree_map_lookup: "map_of (btree_map ps) = map_of (rev ps)"
  using btree_map_fold [of "[]" ps] by (simp add: btree_map_def)

section \<open>Failing and recording\<close>

definition kept :: "string option \<Rightarrow> trace \<Rightarrow> trace" where
  "kept outcome tr =
     (case outcome of None \<Rightarrow> tr | Some problem \<Rightarrow> tr @ [Eprintln (''audit: '' @ problem)])"

definition fail :: "sink \<Rightarrow> string \<Rightarrow> string \<Rightarrow> trace \<Rightarrow> trace" where
  "fail sink action problem tr =
     (let said = tr @ [Eprintln problem]
      in kept (sink said (Failure action problem)) (said @ [Audited (Failure action problem)]))"

definition record_event ::
  "sink \<Rightarrow> string \<Rightarrow> phase \<Rightarrow> (string \<times> string) list \<Rightarrow> trace \<Rightarrow> trace" where
  "record_event sink action phase properties tr =
     (let entry = Event action phase (btree_map properties)
      in kept (sink tr entry) (tr @ [Audited entry]))"

lemma kept_extends [simp]: "\<exists>es. kept out tr = tr @ es"
  by (simp add: kept_def split: option.splits)

lemma failures_kept [simp]: "failures (kept out tr) = failures tr"
  by (simp add: kept_def split: option.splits)

lemma failures_fail [simp]: "failures (fail sink action problem tr) = failures tr @ [action]"
  by (simp add: fail_def Let_def)

lemma failures_record_event [simp]: "failures (record_event sink a p ps tr) = failures tr"
  by (simp add: record_event_def Let_def)

lemma kept_prefix [intro, simp]: "prefix tr (kept out tr)"
  by (simp add: kept_def split: option.splits)

lemma fail_prefix [intro, simp]: "prefix tr (fail sink action problem tr)"
proof -
  let ?tr = "tr @ [Eprintln problem, Audited (Failure action problem)]"
  have "prefix tr ?tr" by simp
  also have "prefix ?tr (fail sink action problem tr)"
    by (simp add: fail_def Let_def)
  finally show ?thesis .
qed

lemma record_event_prefix [intro, simp]: "prefix tr (record_event sink a p ps tr)"
proof -
  let ?tr = "tr @ [Audited (Event a p (btree_map ps))]"
  have "prefix tr ?tr" by simp
  also have "prefix ?tr (record_event sink a p ps tr)"
    by (simp add: record_event_def Let_def)
  finally show ?thesis .
qed

text \<open>What a failure and a record add, as lists, for the proofs that only need that.\<close>

lemma fail_appends: "\<exists>es. fail sink action problem tr = tr @ es"
  using fail_prefix by (auto simp: prefix_def)

lemma record_event_appends: "\<exists>es. record_event sink a p ps tr = tr @ es"
  using record_event_prefix by (auto simp: prefix_def)

lemma prefix_fail [simp, intro]: "prefix tr tr' \<Longrightarrow> prefix tr (fail sink action problem tr')"
  using fail_prefix prefix_order.trans by blast

lemma prefix_record_event [simp, intro]: "prefix tr tr' \<Longrightarrow> prefix tr (record_event sink a p ps tr')"
  using record_event_prefix prefix_order.trans by blast

lemma prefix_append_right [simp, intro]: "prefix tr tr' \<Longrightarrow> prefix tr (tr' @ es)"
  by (rule prefix_prefix)

text \<open>A failure is never only on a screen: it is said on stderr and told to the audit.\<close>

lemma fail_said_and_audited:
  "Eprintln problem \<in> set (fail sink action problem tr)"
  "Audited (Failure action problem) \<in> set (fail sink action problem tr)"
  by (auto simp: fail_def Let_def kept_def split: option.splits)

section \<open>What an operation adds\<close>

text \<open>
  \<open>adds P tr tr'\<close>: the operation only added to the trace, and every effect it added satisfies
  \<open>P\<close>.  The quiet effects are those that are neither a wait nor a milestone of the service's
  life: a node started, drained, ready or stopping, its orders watched, its process declared, a
  state reported to a service manager, a program run.
\<close>

definition adds :: "(effect \<Rightarrow> bool) \<Rightarrow> trace \<Rightarrow> trace \<Rightarrow> bool" where
  "adds P tr tr' \<longleftrightarrow> (\<exists>es. tr' = tr @ es \<and> list_all P es)"

fun wait_of :: "effect \<Rightarrow> nat option" where
  "wait_of (Waited d) = Some d"
| "wait_of _ = None"

fun milestone :: "effect \<Rightarrow> bool" where
  "milestone Started = True"
| "milestone (Watched _) = True"
| "milestone Unwatched = True"
| "milestone (Declared _) = True"
| "milestone Undeclared = True"
| "milestone Ready = True"
| "milestone Stopping = True"
| "milestone Drained = True"
| "milestone (Reported _) = True"
| "milestone (Notified _) = True"
| "milestone (Ran _ _) = True"
| "milestone _ = False"

definition quiet :: "effect \<Rightarrow> bool" where
  "quiet e \<longleftrightarrow> wait_of e = None \<and> \<not> milestone e"

definition waits :: "trace \<Rightarrow> nat list" where
  "waits tr = List.map_filter wait_of tr"

definition milestones :: "trace \<Rightarrow> trace" where
  "milestones tr = filter milestone tr"

named_theorems adds_intros \<open>what the operations add to the trace\<close>

lemma adds_refl [simp, adds_intros]: "adds P tr tr"
  by (auto simp: adds_def)

lemma adds_append [simp]: "adds P tr (tr @ es) \<longleftrightarrow> list_all P es"
  by (auto simp: adds_def)

lemma adds_trans: "adds P tr tr' \<Longrightarrow> adds P tr' tr'' \<Longrightarrow> adds P tr tr''"
  by (auto simp: adds_def)

lemma adds_mono: "adds P tr tr' \<Longrightarrow> (\<And>e. P e \<Longrightarrow> Q e) \<Longrightarrow> adds Q tr tr'"
  by (auto simp: adds_def list_all_iff)

lemma adds_more: "adds P tr tr' \<Longrightarrow> list_all P es \<Longrightarrow> adds P tr (tr' @ es)"
  by (auto simp: adds_def)

lemma adds_prefix: "adds P tr tr' \<Longrightarrow> prefix tr tr'"
  by (auto simp: adds_def)

lemma adds_kept: "(\<And>s. P (Eprintln s)) \<Longrightarrow> adds P tr tr' \<Longrightarrow> adds P tr (kept out tr')"
  by (auto simp: kept_def split: option.splits intro: adds_more)

lemma adds_fail:
  "(\<And>s. P (Eprintln s)) \<Longrightarrow> P (Audited (Failure action problem)) \<Longrightarrow> adds P tr tr' \<Longrightarrow>
     adds P tr (fail sink action problem tr')"
  by (auto simp: fail_def Let_def intro!: adds_kept adds_more)

lemma adds_record_event:
  "(\<And>s. P (Eprintln s)) \<Longrightarrow> (\<And>qs. P (Audited (Event action p qs))) \<Longrightarrow> adds P tr tr' \<Longrightarrow>
     adds P tr (record_event sink action p ps tr')"
  by (auto simp: record_event_def Let_def intro!: adds_kept adds_more)

lemma quiet_simps [simp]:
  "quiet (Println s)" "quiet (Print s)" "quiet (Eprintln s)" "quiet (Audited entry)"
  "quiet (Located s)" "quiet Looked" "quiet (Slept n)" "quiet (Wrote s t)" "quiet (Posted s)"
  "quiet Listened" "quiet Orders_taken" "quiet (Applied s)" "quiet (Called s)"
  "quiet (Saved path s)" "quiet (Removed path)" "quiet (Made path)"
  by (simp_all add: quiet_def)

lemma quiet_fail [adds_intros]: "adds quiet tr tr' \<Longrightarrow> adds quiet tr (fail sink action problem tr')"
  by (rule adds_fail) simp_all

lemma quiet_record_event [adds_intros]:
  "adds quiet tr tr' \<Longrightarrow> adds quiet tr (record_event sink action p ps tr')"
  by (rule adds_record_event) simp_all

lemma waits_append [simp]: "waits (xs @ ys) = waits xs @ waits ys"
  by (simp add: waits_def List.map_filter_def)

lemma waits_simps [simp]:
  "waits [] = []"
  "wait_of e = None \<Longrightarrow> waits (e # es) = waits es"
  "waits (Waited d # es) = d # waits es"
  by (simp_all add: waits_def List.map_filter_def)

lemma milestones_append [simp]: "milestones (xs @ ys) = milestones xs @ milestones ys"
  by (simp add: milestones_def)

lemma milestones_simps [simp]:
  "milestones [] = []"
  "milestones (e # es) = (if milestone e then e # milestones es else milestones es)"
  by (simp_all add: milestones_def)

lemma quiet_waits: "adds quiet tr tr' \<Longrightarrow> waits tr' = waits tr"
  by (auto simp: adds_def quiet_def waits_def List.map_filter_def list_all_iff filter_empty_conv)

lemma quiet_milestones: "adds quiet tr tr' \<Longrightarrow> milestones tr' = milestones tr"
  by (auto simp: adds_def quiet_def milestones_def list_all_iff filter_empty_conv)

lemma quiet_fail_same [simp]:
  "milestones (fail sink action problem tr) = milestones tr"
  "waits (fail sink action problem tr) = waits tr"
  using quiet_milestones [OF quiet_fail [OF adds_refl]] quiet_waits [OF quiet_fail [OF adds_refl]]
  by simp_all

lemma quiet_record_event_same [simp]:
  "milestones (record_event sink action p ps tr) = milestones tr"
  "waits (record_event sink action p ps tr) = waits tr"
  using quiet_milestones [OF quiet_record_event [OF adds_refl]]
    quiet_waits [OF quiet_record_event [OF adds_refl]]
  by simp_all

section \<open>Exit codes\<close>

type_synonym exit_code = "8 word"

text \<open>
  \<open>ExitCode::SUCCESS\<close>, and \<open>registration::REFUSED\<close>, exit code 2, which no service manager
  restarts.
\<close>

definition SUCCESS :: exit_code where
  "SUCCESS = 0"

definition REFUSED :: exit_code where
  "REFUSED = 2"

lemma SUCCESS_neq_REFUSED [simp]: "SUCCESS \<noteq> REFUSED" "REFUSED \<noteq> SUCCESS"
  by (simp_all add: SUCCESS_def REFUSED_def)

section \<open>The contract of a print-or-refuse mode\<close>

text \<open>
  A mode of the program that prints or refuses runs on what it was told and a state, and
  answers an exit code.  It only adds to the trace; it exits 0 or \<open>REFUSED\<close>; and it is refused
  exactly where it audited one failure of its own action.
\<close>

locale print_or_refuse =
  fixes run :: "'a \<Rightarrow> 's \<Rightarrow> exit_code \<times> 's"
    and seen :: "'s \<Rightarrow> trace"
    and action :: string
  assumes adds: "prefix (seen s) (seen (snd (run a s)))"
    and accepted: "fst (run a s) = SUCCESS \<Longrightarrow> failures (seen (snd (run a s))) = failures (seen s)"
    and refused: "fst (run a s) \<noteq> SUCCESS \<Longrightarrow>
      fst (run a s) = REFUSED \<and> failures (seen (snd (run a s))) = failures (seen s) @ [action]"
begin

lemma two_codes: "fst (run a s) \<in> {SUCCESS, REFUSED}"
  using refused by blast

lemma refused_iff_audited:
  "fst (run a s) = REFUSED \<longleftrightarrow> failures (seen (snd (run a s))) = failures (seen s) @ [action]"
proof
  assume "fst (run a s) = REFUSED"
  then show "failures (seen (snd (run a s))) = failures (seen s) @ [action]"
    using refused by force
next
  assume "failures (seen (snd (run a s))) = failures (seen s) @ [action]"
  then have "fst (run a s) \<noteq> SUCCESS" using accepted by force
  then show "fst (run a s) = REFUSED" using refused by blast
qed

lemma keeps_past: "e \<in> set (seen s) \<Longrightarrow> e \<in> set (seen (snd (run a s)))"
  using adds by (metis set_mono_prefix subsetD)

end

end
