(* ===== verification/Configuration.thy ===== *)
theory Configuration
  imports Effects
begin

text \<open>
  The node's configuration as the service sees it: the fields of
  \<open>xmip_configure::XmipConfigurationDocument\<close> the service reads, and nothing of how the document is
  parsed, sliced or signed.  A configured Location carries, besides its name, its address
  and whether it starts, whatever else the configuration says of it (\<open>'o\<close>), which only the linked
  transports read.
\<close>

datatype given = Text string | Other_given

record 'o location =
  loc_name :: string
  loc_address :: string
  loc_start :: bool
  loc_other :: 'o

record 'o bound_location =
  bound_node :: string
  bound_at :: "'o location"

record operate_section =
  operate_listen :: "string option"
  operate_key :: "string option"

record 'o document =
  doc_node :: string
  doc_data_directory :: "path \<Rightarrow> path"  \<comment> \<open>\<open>service.data_directory(configuration)\<close>\<close>
  doc_roles :: "string option"
  doc_operate :: "operate_section option"
  doc_storage_listen :: "string option"
  doc_provision :: "string \<Rightarrow> (string \<times> given) list option"
  doc_receive :: "'o location list"
  doc_applications :: "'o bound_location list list"

text \<open>
  \<open>xmip_runtime::start::read\<close>: the document at a path, or the reason it does not read.
\<close>

type_synonym 'o read_document = "trace \<Rightarrow> string \<Rightarrow> 'o document outcome"

end
