(* ===== verification/Arguments.thy ===== *)
theory Arguments
  imports Rust_Text
begin

text \<open>
  \<open>arguments.rs\<close>: what \<open>xmip-service\<close> was told, every parameter named and none by position.
  \<open>parse\<close> reads the command line as the code does, flag by flag, then checks the switches,
  the names, the account, the placing and the authority in the code's order.  The lemmas show
  that what \<open>parse\<close> accepts is exactly the legal argument records, by a round trip through a
  command line that says them.
\<close>

section \<open>Data\<close>

datatype mode = Service | Console | Definition | Slice | Install | Listening | Uninstall

text \<open>
  \<open>xmip_node::Purpose\<close>, with the two purposes the service names; how a word is read as one,
  \<open>Purpose::declared\<close>, is the library's and a parameter below.
\<close>

datatype purpose = Runtime | Test

type_synonym declared_purpose = "string \<Rightarrow> purpose outcome"

record arguments =
  arg_configuration :: string
  arg_mode :: mode
  arg_purpose :: purpose
  arg_node :: "string option"
  arg_cluster :: "string option"
  arg_account :: "string option"
  arg_bind :: "string option"
  arg_nodes :: "string list"
  arg_authority :: "string option"

text \<open>The local variables of \<open>parse\<close> while it reads.\<close>

record reading =
  rd_configuration :: "string option"
  rd_switches :: "mode list"
  rd_node :: "string option"
  rd_cluster :: "string option"
  rd_account :: "string option"
  rd_bind :: "string option"
  rd_nodes :: "string list"
  rd_authority :: "string option"
  rd_purpose :: purpose

definition nothing_read :: reading where
  "nothing_read =
     \<lparr>rd_configuration = None, rd_switches = [], rd_node = None, rd_cluster = None,
      rd_account = None, rd_bind = None, rd_nodes = [], rd_authority = None,
      rd_purpose = Runtime\<rparr>"

section \<open>Reading the flags\<close>

definition take_value :: "string \<Rightarrow> string list \<Rightarrow> (string \<times> string list) outcome" where
  "take_value flag args =
     (case args of
        [] \<Rightarrow> Inl (flag @ '' needs a value'')
      | v # rest \<Rightarrow>
          if starts_with v ''--'' then Inl (flag @ '' needs a value'') else Inr (v, rest))"

definition nodes_of :: "string \<Rightarrow> string list" where
  "nodes_of v = filter (\<lambda>name. name \<noteq> []) (map trim (split_when (\<lambda>c. c = CHR '','') v))"

definition read_flag ::
  "declared_purpose \<Rightarrow> string \<Rightarrow> string list \<Rightarrow> reading \<Rightarrow> (reading \<times> string list) outcome" where
  "read_flag declared flag args r =
     (if flag = ''--configuration'' then
        and_then (take_value flag args) (\<lambda>(v, rest). Inr (r\<lparr>rd_configuration := Some v\<rparr>, rest))
      else if flag = ''--purpose'' then
        and_then (take_value flag args) (\<lambda>(v, rest).
          and_then (declared v) (\<lambda>p. Inr (r\<lparr>rd_purpose := p\<rparr>, rest)))
      else if flag = ''--node'' then
        and_then (take_value flag args) (\<lambda>(v, rest). Inr (r\<lparr>rd_node := Some v\<rparr>, rest))
      else if flag = ''--cluster'' then
        and_then (take_value flag args) (\<lambda>(v, rest). Inr (r\<lparr>rd_cluster := Some v\<rparr>, rest))
      else if flag = ''--account'' then
        and_then (take_value flag args) (\<lambda>(v, rest). Inr (r\<lparr>rd_account := Some v\<rparr>, rest))
      else if flag = ''--bind'' then
        and_then (take_value flag args) (\<lambda>(v, rest). Inr (r\<lparr>rd_bind := Some v\<rparr>, rest))
      else if flag = ''--authority'' then
        and_then (take_value flag args) (\<lambda>(v, rest). Inr (r\<lparr>rd_authority := Some v\<rparr>, rest))
      else if flag = ''--nodes'' then
        and_then (take_value flag args) (\<lambda>(v, rest). Inr (r\<lparr>rd_nodes := nodes_of v\<rparr>, rest))
      else if flag = ''--console'' then Inr (r\<lparr>rd_switches := rd_switches r @ [Console]\<rparr>, args)
      else if flag = ''--definition'' then Inr (r\<lparr>rd_switches := rd_switches r @ [Definition]\<rparr>, args)
      else if flag = ''--slice'' then Inr (r\<lparr>rd_switches := rd_switches r @ [Slice]\<rparr>, args)
      else if flag = ''--install'' then Inr (r\<lparr>rd_switches := rd_switches r @ [Install]\<rparr>, args)
      else if flag = ''--listening'' then Inr (r\<lparr>rd_switches := rd_switches r @ [Listening]\<rparr>, args)
      else if flag = ''--uninstall'' then Inr (r\<lparr>rd_switches := rd_switches r @ [Uninstall]\<rparr>, args)
      else Inl (flag @ '' is not a parameter of xmip-service''))"

lemma take_value_shorter:
  "take_value flag args = Inr (v, rest) \<Longrightarrow> length rest < length args"
  by (auto simp: take_value_def split: list.splits if_splits)

lemma read_flag_shorter:
  "read_flag declared flag args r = Inr (r', rest) \<Longrightarrow> length rest \<le> length args"
  by (auto simp: read_flag_def and_then_Inr_iff split: if_splits dest!: take_value_shorter)

function read_flags ::
  "declared_purpose \<Rightarrow> string list \<Rightarrow> reading \<Rightarrow> reading outcome" where
  "read_flags declared [] r = Inr r"
| "read_flags declared (flag # args) r =
     and_then (read_flag declared flag args r)
       (\<lambda>read. read_flags declared (snd read) (fst read))"
  by pat_completeness auto
termination
  by (relation "measure (\<lambda>(d, args, r). length args)")
     (auto simp: less_Suc_eq_le dest: read_flag_shorter)

section \<open>The checks\<close>

definition mode_of :: "mode list \<Rightarrow> mode outcome" where
  "mode_of switches =
     (case switches of
        [] \<Rightarrow> Inr Service
      | [mode] \<Rightarrow> Inr mode
      | _ \<Rightarrow> Inl (''--console, --definition, --slice, --install, --listening and --uninstall ''
                @ ''exclude each other''))"

definition names :: "mode \<Rightarrow> string option \<Rightarrow> string option \<Rightarrow> unit outcome" where
  "names mode node cluster =
     (let takes_node = (mode = Slice \<or> mode = Install) in
      if mode = Slice \<and> node = None then
        Inl ''--slice needs --node, the node it slices for''
      else if mode = Install \<and> node = None then
        Inl ''--install needs --node, the node it installs''
      else if mode = Install \<and> cluster = None then
        Inl ''--install needs --cluster, the cluster a starter cluster.xmip names''
      else if node \<noteq> None \<and> \<not> takes_node then
        Inl ''--node is the node --slice or --install acts for''
      else if cluster \<noteq> None \<and> \<not> takes_node then
        Inl ''--cluster is the cluster --slice or --install names''
      else Inr ())"

definition placing :: "mode \<Rightarrow> string option \<Rightarrow> string list \<Rightarrow> unit outcome" where
  "placing mode bind nodes =
     (if bind = None \<and> nodes = [] then Inr ()
      else if mode \<noteq> Slice then Inl ''--bind and --nodes place the Locations --slice prints''
      else if bind \<noteq> None \<and> nodes \<noteq> [] then Inr ()
      else if bind \<noteq> None then Inl ''--bind needs --nodes, the nodes the environment has''
      else Inl ''--nodes needs --bind, the Parties' far end'')"

definition parse :: "declared_purpose \<Rightarrow> string list \<Rightarrow> arguments outcome" where
  "parse declared args =
     and_then (read_flags declared args nothing_read) (\<lambda>r.
     and_then (mode_of (rd_switches r)) (\<lambda>mode.
     and_then (names mode (rd_node r) (rd_cluster r)) (\<lambda>_.
     and_then (if rd_account r \<noteq> None \<and> mode \<noteq> Install
               then Inl ''--account is the account --install registers the service as''
               else Inr ()) (\<lambda>_.
     and_then (placing mode (rd_bind r) (rd_nodes r)) (\<lambda>_.
     and_then (if rd_authority r \<noteq> None \<and> mode \<noteq> Slice
               then Inl (''--authority is the folder --slice signs with ''
                         @ ''the cluster's authority from'')
               else Inr ()) (\<lambda>_.
     and_then (ok_or ''--configuration names no node configuration'' (rd_configuration r))
       (\<lambda>configuration.
       Inr \<lparr>arg_configuration = configuration, arg_mode = mode, arg_purpose = rd_purpose r,
            arg_node = rd_node r, arg_cluster = rd_cluster r, arg_account = rd_account r,
            arg_bind = rd_bind r, arg_nodes = rd_nodes r,
            arg_authority = rd_authority r\<rparr>)))))))"

section \<open>What is legal\<close>

text \<open>
  The contract of \<open>parse\<close>: the values no flag could have swallowed, the names each mode
  needs and no other, the account only with \<open>--install\<close>, \<open>--bind\<close> with \<open>--nodes\<close> and both
  only with \<open>--slice\<close>, the authority only with \<open>--slice\<close>, and every node a trimmed name.
\<close>

definition is_value :: "string \<Rightarrow> bool" where
  "is_value v \<longleftrightarrow> \<not> starts_with v ''--''"

definition is_name :: "string \<Rightarrow> bool" where
  "is_name n \<longleftrightarrow> n \<noteq> [] \<and> trim n = n \<and> CHR '','' \<notin> set n"

definition legal :: "arguments \<Rightarrow> bool" where
  "legal a \<longleftrightarrow>
     is_value (arg_configuration a)
     \<and> pred_option is_value (arg_node a) \<and> pred_option is_value (arg_cluster a)
     \<and> pred_option is_value (arg_account a) \<and> pred_option is_value (arg_bind a)
     \<and> pred_option is_value (arg_authority a)
     \<and> list_all is_name (arg_nodes a)
     \<and> (arg_mode a = Slice \<longrightarrow> arg_node a \<noteq> None)
     \<and> (arg_mode a = Install \<longrightarrow> arg_node a \<noteq> None \<and> arg_cluster a \<noteq> None)
     \<and> (arg_mode a \<notin> {Slice, Install} \<longrightarrow> arg_node a = None \<and> arg_cluster a = None)
     \<and> (arg_account a \<noteq> None \<longrightarrow> arg_mode a = Install)
     \<and> (arg_bind a \<noteq> None \<longrightarrow> arg_mode a = Slice)
     \<and> (arg_bind a = None \<longleftrightarrow> arg_nodes a = [])
     \<and> (arg_authority a \<noteq> None \<longrightarrow> arg_mode a = Slice)"

section \<open>What parse accepts is legal\<close>

definition reading_ok :: "reading \<Rightarrow> bool" where
  "reading_ok r \<longleftrightarrow>
     pred_option is_value (rd_configuration r)
     \<and> pred_option is_value (rd_node r) \<and> pred_option is_value (rd_cluster r)
     \<and> pred_option is_value (rd_account r) \<and> pred_option is_value (rd_bind r)
     \<and> pred_option is_value (rd_authority r) \<and> list_all is_name (rd_nodes r)
     \<and> Service \<notin> set (rd_switches r)"

lemma take_value_iff:
  "take_value flag args = Inr (v, rest) \<longleftrightarrow> args = v # rest \<and> is_value v"
  by (auto simp: take_value_def is_value_def split: list.splits)

lemma nodes_of_names: "list_all is_name (nodes_of v)"
proof -
  have "CHR '','' \<notin> set (trim part)" if "part \<in> set (split_when (\<lambda>c. c = CHR '','') v)" for part
    using that split_when_clean [of "\<lambda>c. c = CHR '',''" v] set_trim [of part] by blast
  then show ?thesis by (auto simp: nodes_of_def list_all_iff is_name_def)
qed

lemma read_flag_ok:
  "read_flag declared flag args r = Inr (r', rest) \<Longrightarrow> reading_ok r \<Longrightarrow> reading_ok r'"
  by (auto simp: read_flag_def and_then_Inr_iff take_value_iff reading_ok_def nodes_of_names
      split: if_splits)

lemma read_flags_ok:
  "read_flags declared args r = Inr r' \<Longrightarrow> reading_ok r \<Longrightarrow> reading_ok r'"
proof (induction declared args r rule: read_flags.induct)
  case (2 declared flag args r)
  from "2.prems"(1) obtain read where read: "read_flag declared flag args r = Inr read"
    and rest: "read_flags declared (snd read) (fst read) = Inr r'"
    by (auto simp: and_then_Inr_iff)
  have "reading_ok (fst read)"
    using read "2.prems"(2) by (metis prod.collapse read_flag_ok)
  with "2.IH" [OF read] rest show ?case by blast
qed simp

lemma nothing_read_ok: "reading_ok nothing_read"
  by (simp add: reading_ok_def nothing_read_def)

lemma mode_of_iff:
  "mode_of switches = Inr mode \<longleftrightarrow>
     (switches = [] \<and> mode = Service) \<or> switches = [mode]"
  by (auto simp: mode_of_def split: list.splits)

lemma names_iff:
  "names mode node cluster = Inr () \<longleftrightarrow>
     (mode = Slice \<longrightarrow> node \<noteq> None) \<and> (mode = Install \<longrightarrow> node \<noteq> None \<and> cluster \<noteq> None)
     \<and> (mode \<notin> {Slice, Install} \<longrightarrow> node = None \<and> cluster = None)"
  by (auto simp: names_def Let_def)

lemma placing_iff:
  "placing mode bind nodes = Inr () \<longleftrightarrow>
     (bind = None \<longleftrightarrow> nodes = []) \<and> (bind \<noteq> None \<longrightarrow> mode = Slice)"
  by (auto simp: placing_def)

lemma unless_Inr_iff: "(if c then Inl e else Inr ()) = Inr u \<longleftrightarrow> \<not> c"
  by simp

definition agrees :: "reading \<Rightarrow> arguments \<Rightarrow> bool" where
  "agrees r a \<longleftrightarrow>
     rd_configuration r = Some (arg_configuration a)
     \<and> mode_of (rd_switches r) = Inr (arg_mode a)
     \<and> rd_purpose r = arg_purpose a \<and> rd_node r = arg_node a \<and> rd_cluster r = arg_cluster a
     \<and> rd_account r = arg_account a \<and> rd_bind r = arg_bind a \<and> rd_nodes r = arg_nodes a
     \<and> rd_authority r = arg_authority a"

definition checked :: "arguments \<Rightarrow> bool" where
  "checked a \<longleftrightarrow>
     names (arg_mode a) (arg_node a) (arg_cluster a) = Inr ()
     \<and> (arg_account a \<noteq> None \<longrightarrow> arg_mode a = Install)
     \<and> placing (arg_mode a) (arg_bind a) (arg_nodes a) = Inr ()
     \<and> (arg_authority a \<noteq> None \<longrightarrow> arg_mode a = Slice)"

lemma parse_accepts:
  assumes "parse declared args = Inr a"
  obtains r where "read_flags declared args nothing_read = Inr r" "agrees r a" "checked a"
  using assms unfolding parse_def and_then_Inr_iff unless_Inr_iff ok_or_Inr_iff
  by (auto simp: agrees_def checked_def)

lemma parse_accepting:
  assumes "read_flags declared args nothing_read = Inr r" "agrees r a" "checked a"
  shows "parse declared args = Inr a"
  using assms by (auto simp: parse_def agrees_def checked_def)

lemma parse_legal: "parse declared args = Inr a \<Longrightarrow> legal a"
proof -
  assume "parse declared args = Inr a"
  then obtain r where r: "read_flags declared args nothing_read = Inr r" "agrees r a" "checked a"
    by (rule parse_accepts)
  have "reading_ok r" using r(1) nothing_read_ok by (rule read_flags_ok)
  then show ?thesis using r(2,3)
    by (auto simp: reading_ok_def agrees_def checked_def legal_def names_iff placing_iff)
qed

section \<open>Every legal record is said by a command line\<close>

text \<open>
  A command line that says a record, the purpose by \<open>word\<close>.  The names of \<open>--nodes\<close> are
  written after a comma, since a name may itself begin with two dashes and \<open>parse\<close> drops the
  empty name before the comma.
\<close>

definition flag_value :: "string \<Rightarrow> string option \<Rightarrow> string list" where
  "flag_value flag v = (case v of None \<Rightarrow> [] | Some x \<Rightarrow> [flag, x])"

definition switch_words :: "mode \<Rightarrow> string list" where
  "switch_words mode =
     (case mode of
        Service \<Rightarrow> [] | Console \<Rightarrow> [''--console''] | Definition \<Rightarrow> [''--definition'']
      | Slice \<Rightarrow> [''--slice''] | Install \<Rightarrow> [''--install'']
      | Listening \<Rightarrow> [''--listening''] | Uninstall \<Rightarrow> [''--uninstall''])"

definition nodes_words :: "string list \<Rightarrow> string list" where
  "nodes_words nodes =
     (if nodes = [] then [] else [''--nodes'', CHR '','' # join_with '','' nodes])"

definition command_line :: "(purpose \<Rightarrow> string) \<Rightarrow> arguments \<Rightarrow> string list" where
  "command_line word a =
     [''--configuration'', arg_configuration a] @ switch_words (arg_mode a)
     @ [''--purpose'', word (arg_purpose a)]
     @ flag_value ''--node'' (arg_node a) @ flag_value ''--cluster'' (arg_cluster a)
     @ flag_value ''--account'' (arg_account a) @ flag_value ''--bind'' (arg_bind a)
     @ nodes_words (arg_nodes a) @ flag_value ''--authority'' (arg_authority a)"

lemma take_value_given [simp]: "is_value v \<Longrightarrow> take_value flag (v # rest) = Inr (v, rest)"
  by (simp add: take_value_iff)

lemma read_flags_value:
  assumes "is_value v"
  shows
  "read_flags d (''--configuration'' # v # rest) r = read_flags d rest (r\<lparr>rd_configuration := Some v\<rparr>)"
  "d v = Inr p \<Longrightarrow> read_flags d (''--purpose'' # v # rest) r = read_flags d rest (r\<lparr>rd_purpose := p\<rparr>)"
  "read_flags d (''--node'' # v # rest) r = read_flags d rest (r\<lparr>rd_node := Some v\<rparr>)"
  "read_flags d (''--cluster'' # v # rest) r = read_flags d rest (r\<lparr>rd_cluster := Some v\<rparr>)"
  "read_flags d (''--account'' # v # rest) r = read_flags d rest (r\<lparr>rd_account := Some v\<rparr>)"
  "read_flags d (''--bind'' # v # rest) r = read_flags d rest (r\<lparr>rd_bind := Some v\<rparr>)"
  "read_flags d (''--authority'' # v # rest) r = read_flags d rest (r\<lparr>rd_authority := Some v\<rparr>)"
  "read_flags d (''--nodes'' # v # rest) r = read_flags d rest (r\<lparr>rd_nodes := nodes_of v\<rparr>)"
  using assms by (simp_all add: read_flag_def)

lemma read_flags_option:
  assumes "pred_option is_value x"
  shows
  "rd_node r = None \<Longrightarrow> read_flags d (flag_value ''--node'' x @ rest) r = read_flags d rest (r\<lparr>rd_node := x\<rparr>)"
  "rd_cluster r = None \<Longrightarrow> read_flags d (flag_value ''--cluster'' x @ rest) r = read_flags d rest (r\<lparr>rd_cluster := x\<rparr>)"
  "rd_account r = None \<Longrightarrow> read_flags d (flag_value ''--account'' x @ rest) r = read_flags d rest (r\<lparr>rd_account := x\<rparr>)"
  "rd_bind r = None \<Longrightarrow> read_flags d (flag_value ''--bind'' x @ rest) r = read_flags d rest (r\<lparr>rd_bind := x\<rparr>)"
  "rd_authority r = None \<Longrightarrow>
     read_flags d (flag_value ''--authority'' x) r = Inr (r\<lparr>rd_authority := x\<rparr>)"
  using assms
  by (cases x; cases r; simp add: flag_value_def read_flags_value del: read_flags.simps(2))+

lemma read_flags_switch:
  "read_flags d (switch_words m @ rest) r =
     read_flags d rest (r\<lparr>rd_switches := rd_switches r @ (if m = Service then [] else [m])\<rparr>)"
  by (cases m) (simp_all add: switch_words_def read_flag_def)

lemma split_names:
  assumes "list_all is_name nodes" "nodes \<noteq> []"
  shows "nodes_of (CHR '','' # join_with '','' nodes) = nodes"
proof -
  have "split_when (\<lambda>c. c = CHR '','') (join_with '','' nodes) = nodes"
    using assms by (intro split_join) (auto simp: list_all_iff is_name_def)
  moreover have "map trim nodes = nodes"
    using assms(1) by (auto simp: list_all_iff is_name_def intro: map_idI)
  moreover have "filter (\<lambda>n. n \<noteq> []) nodes = nodes"
    using assms(1) by (auto simp: list_all_iff is_name_def intro: filter_True)
  ultimately show ?thesis by (simp add: nodes_of_def)
qed

lemma read_flags_nodes:
  assumes "list_all is_name nodes" "rd_nodes r = []"
  shows "read_flags d (nodes_words nodes @ rest) r = read_flags d rest (r\<lparr>rd_nodes := nodes\<rparr>)"
proof (cases "nodes = []")
  case True
  then show ?thesis using assms(2) by (cases r) (simp add: nodes_words_def)
next
  case False
  have "is_value (CHR '','' # join_with '','' nodes)"
    by (simp add: is_value_def starts_with_def)
  then show ?thesis using False assms(1)
    by (simp add: nodes_words_def read_flags_value split_names del: read_flags.simps)
qed

lemma parse_command_line:
  assumes legal: "legal a"
    and purpose: "declared (word (arg_purpose a)) = Inr (arg_purpose a)"
      "\<not> starts_with (word (arg_purpose a)) ''--''"
  shows "parse declared (command_line word a) = Inr a"
proof -
  let ?switches = "if arg_mode a = Service then [] else [arg_mode a]"
  let ?r = "\<lparr>rd_configuration = Some (arg_configuration a), rd_switches = ?switches,
    rd_node = arg_node a, rd_cluster = arg_cluster a, rd_account = arg_account a,
    rd_bind = arg_bind a, rd_nodes = arg_nodes a, rd_authority = arg_authority a,
    rd_purpose = arg_purpose a\<rparr>"
  have "read_flags declared (command_line word a) nothing_read = Inr ?r"
    using legal purpose unfolding legal_def
    by (simp add: command_line_def read_flags_value read_flags_switch read_flags_option
        read_flags_nodes nothing_read_def is_value_def del: read_flags.simps(2))
  moreover have "agrees ?r a"
    by (simp add: agrees_def mode_of_iff)
  moreover have "checked a"
    using legal by (auto simp: legal_def checked_def names_iff placing_iff)
  ultimately show ?thesis by (rule parse_accepting)
qed

section \<open>Properties\<close>

text \<open>
  C19: What is accepted is what the program can run: whatever command line \<open>parse\<close> accepts, its record
  is legal, with the node and cluster its mode needs and no other, the account only to install,
  \<open>--bind\<close> and \<open>--nodes\<close> both or neither and only to slice, and no value another flag's.
\<close>

theorem parse_accepts_only_legal:
  assumes "parse declared args = Inr a"
  shows "legal a"
  using assms by (rule parse_legal)

text \<open>
  C20: Every legal record is said by a command line that \<open>parse\<close> reads back as it was.
\<close>

theorem parse_reads_what_is_said:
  assumes "legal a" "declared (word (arg_purpose a)) = Inr (arg_purpose a)"
    and "\<not> starts_with (word (arg_purpose a)) ''--''"
  shows "parse declared (command_line word a) = Inr a"
  using assms by (rule parse_command_line)

definition plain_purposes :: declared_purpose where
  "plain_purposes word =
     (if word = ''test'' then Inr Test
      else if word = ''runtime'' then Inr Runtime else Inl (word @ '' is neither runtime nor test''))"

definition purpose_words :: "purpose \<Rightarrow> string" where
  "purpose_words purpose = (case purpose of Runtime \<Rightarrow> ''runtime'' | Test \<Rightarrow> ''test'')"

definition slice_args :: arguments where
  "slice_args =
     \<lparr>arg_configuration = ''cluster.xmip'', arg_mode = Slice, arg_purpose = Test,
      arg_node = Some ''R1'', arg_cluster = Some ''C1'', arg_account = None,
      arg_bind = Some ''10.77.0.1'', arg_nodes = [''R1'', ''S1''], arg_authority = None\<rparr>"

lemma slice_args_legal: "legal slice_args"
proof -
  have "is_name ''R1''" "is_name ''S1''" by code_simp+
  then show ?thesis
    by (simp add: legal_def slice_args_def is_value_def starts_with_def)
qed

theorem parse_reads_what_is_said_witness:
  "parse plain_purposes (command_line purpose_words slice_args) = Inr slice_args"
  by (rule parse_reads_what_is_said [OF slice_args_legal])
     (simp_all add: slice_args_def purpose_words_def plain_purposes_def starts_with_def)

theorem parse_accepts_only_legal_witness:
  "\<exists>a. parse plain_purposes [''--configuration'', ''n'', ''--listening''] = Inr a \<and> legal a"
proof -
  have "\<exists>a. parse plain_purposes [''--configuration'', ''n'', ''--listening''] = Inr a"
    by (simp add: parse_def read_flag_def take_value_def starts_with_def nothing_read_def mode_of_def
        names_def placing_def Let_def)
  then show ?thesis using parse_accepts_only_legal by blast
qed

end
