(* ===== verification/Built.thy ===== *)
theory Built
  imports Configuration
begin

text \<open>
  \<open>built.rs\<close>: the technologies a build of \<open>xmip-service\<close> linked, by the features the site's
  build set and the platform.  A technology is its constructor here; what each does is its own
  repository's.  The lemmas show the order the first gate asks its technologies in, and that a
  build which carries an engine carries a key store.
\<close>

section \<open>Features and platforms\<close>

type_synonym features = "string \<Rightarrow> bool"

text \<open>\<open>cfg(windows)\<close>, \<open>target_os\<close> linux and macos, and any other, Unix or not.\<close>

datatype platform = Windows | Linux | MacOS | Other_platform bool

fun unix :: "platform \<Rightarrow> bool" where
  "unix Windows = False"
| "unix Linux = True"
| "unix MacOS = True"
| "unix (Other_platform u) = u"

text \<open>The features Cargo turns on with another, of those \<open>built.rs\<close> asks.\<close>

definition feature_closed :: "features \<Rightarrow> bool" where
  "feature_closed f \<longleftrightarrow>
     (\<forall>i \<in> {''identify-api-key'', ''identify-ip'', ''identify-jwt'', ''identify-username'',
           ''identify-certificate''}. f i \<longrightarrow> f ''identify'')
     \<and> (f ''persist-rocksdb'' \<longrightarrow> f ''persist'' \<and> f ''secret'')
     \<and> (f ''persist-sqlite'' \<longrightarrow> f ''persist'' \<and> f ''secret'')
     \<and> (f ''authenticate-mutual-tls'' \<longrightarrow> f ''authenticate'')
     \<and> (f ''authorize-location'' \<longrightarrow> f ''authorize'')"

section \<open>What is linked\<close>

datatype authenticator = Circumstance_authenticator | Broker_authenticator | Mutual_tls_verifier

definition authenticators :: "features \<Rightarrow> authenticator list" where
  "authenticators f =
     [Circumstance_authenticator, Broker_authenticator]
     @ (if f ''authenticate-mutual-tls'' then [Mutual_tls_verifier] else [])"

text \<open>
  What the \<open>location\<close> policy is told to admit, each to anyone its gate authenticates; the policy
  itself, from \<open>new\<close> by \<open>admit\<close>, is \<open>xmip_authorize_location\<close>'s.
\<close>

datatype admission = Receive_anyone string | Send_anyone string

definition location_admissions :: "string list \<Rightarrow> string list \<Rightarrow> admission list" where
  "location_admissions receive send = map Receive_anyone receive @ map Send_anyone send"

definition location_policy ::
  "'policy \<Rightarrow> ('policy \<Rightarrow> admission \<Rightarrow> 'policy) \<Rightarrow> string list \<Rightarrow> string list \<Rightarrow> 'policy" where
  "location_policy new admit receive send = foldl admit new (location_admissions receive send)"

definition location_policies ::
  "features \<Rightarrow> 'policy \<Rightarrow> ('policy \<Rightarrow> admission \<Rightarrow> 'policy)
     \<Rightarrow> (string list \<Rightarrow> string list \<Rightarrow> 'policy) list" where
  "location_policies f new admit =
     (if f ''authorize-location'' then [location_policy new admit] else [])"

datatype store_engine = RocksDb | Sqlite

definition engine :: "features \<Rightarrow> store_engine option" where
  "engine f = (if f ''persist-rocksdb'' then Some RocksDb else None)"

definition administration :: "features \<Rightarrow> store_engine option" where
  "administration f = (if f ''persist-sqlite'' then Some Sqlite else None)"

definition key_stores :: "features \<Rightarrow> platform \<Rightarrow> string list" where
  "key_stores f os =
     (if f ''secret'' \<and> os = Windows then [''xmip-core-secret-dpapi''] else [])
     @ (if f ''secret'' \<and> unix os then [''xmip-core-secret-file''] else [])
     @ (if f ''secret'' \<and> os = MacOS then [''xmip-core-secret-keychain''] else [])"

datatype gate_identifier =
    Certificate_identifier | Jwt_identifier | Api_key_identifier | Username_identifier
  | Broker_identifier | Ip_identifier

definition transport_identifiers :: "features \<Rightarrow> gate_identifier list" where
  "transport_identifiers f =
     (if f ''identify-certificate'' then [Certificate_identifier] else [])
     @ (if f ''identify-jwt'' then [Jwt_identifier] else [])
     @ (if f ''identify-api-key'' then [Api_key_identifier] else [])
     @ (if f ''identify-username'' then [Username_identifier] else [])
     @ [Broker_identifier]
     @ (if f ''identify-ip'' then [Ip_identifier] else [])"

datatype transport =
    File_transport | Ftp_transport | Http_transport | Sftp_transport | Tcp_transport | Udp_transport

definition transports :: "features \<Rightarrow> transport list" where
  "transports f =
     (if f ''transport-file'' then [File_transport] else [])
     @ (if f ''transport-ftp'' then [Ftp_transport] else [])
     @ (if f ''transport-http'' then [Http_transport] else [])
     @ (if f ''transport-sftp'' then [Sftp_transport] else [])
     @ (if f ''transport-tcp'' then [Tcp_transport] else [])
     @ (if f ''transport-udp'' then [Udp_transport] else [])"

text \<open>
  \<open>Linked\<close>: the identifiers are a field only of a build with \<open>identify\<close>; without it the default,
  none.  The audit the node is given is the caller's and not repeated here.
\<close>

record 'policy linked_build =
  linked_transports :: "transport list"
  linked_engine :: "store_engine option"
  linked_administration :: "store_engine option"
  linked_key_stores :: "string list"
  linked_identifiers :: "gate_identifier list"
  linked_authenticators :: "authenticator list"
  linked_policies :: "(string list \<Rightarrow> string list \<Rightarrow> 'policy) list"

definition linked ::
  "features \<Rightarrow> platform \<Rightarrow> 'policy \<Rightarrow> ('policy \<Rightarrow> admission \<Rightarrow> 'policy) \<Rightarrow> 'policy linked_build" where
  "linked f os new admit =
     \<lparr>linked_transports = transports f, linked_engine = engine f,
      linked_administration = administration f, linked_key_stores = key_stores f os,
      linked_identifiers = (if f ''identify'' then transport_identifiers f else []),
      linked_authenticators = authenticators f,
      linked_policies = location_policies f new admit\<rparr>"

section \<open>Properties\<close>

text \<open>
  How close to the sender's own credential a technology's claim is, the closest first: the order the
  code documents, as the linear order of the technologies.
\<close>

fun claim_rank :: "gate_identifier \<Rightarrow> nat" where
  "claim_rank Certificate_identifier = 0"
| "claim_rank Jwt_identifier = 1"
| "claim_rank Api_key_identifier = 2"
| "claim_rank Username_identifier = 3"
| "claim_rank Broker_identifier = 4"
| "claim_rank Ip_identifier = 5"

lemma claim_rank_inject: "claim_rank a = claim_rank b \<Longrightarrow> a = b"
  by (cases a; cases b) simp_all

instantiation gate_identifier :: linorder
begin

definition less_eq_gate_identifier :: "gate_identifier \<Rightarrow> gate_identifier \<Rightarrow> bool" where
  "a \<le> b \<longleftrightarrow> claim_rank a \<le> claim_rank b"

definition less_gate_identifier :: "gate_identifier \<Rightarrow> gate_identifier \<Rightarrow> bool" where
  "a < b \<longleftrightarrow> claim_rank a < claim_rank b"

instance
  by standard
    (auto simp: less_eq_gate_identifier_def less_gate_identifier_def dest: claim_rank_inject)

end

text \<open>
  The first gate of every build asks its technologies in one order, each once: the certificate
  a handshake verified, then the credentials sent inside the connection, then the sender a broker
  delivered for, and the peer address last.  Every build with \<open>identify\<close> asks the broker.
\<close>

lemma first_gate_order:
  "sorted (transport_identifiers f) \<and> distinct (transport_identifiers f)
   \<and> Broker_identifier \<in> set (transport_identifiers f)
   \<and> (f ''identify-ip'' \<longleftrightarrow> last (transport_identifiers f) = Ip_identifier)"
  by (auto simp: transport_identifiers_def sorted_append less_eq_gate_identifier_def)

lemma engine_has_key_store:
  assumes "feature_closed f" "engine f \<noteq> None \<or> administration f \<noteq> None" "os = Windows \<or> unix os"
  shows "key_stores f os \<noteq> []"
  using assms
  by (auto simp: feature_closed_def engine_def administration_def key_stores_def split: if_splits)

text \<open>What a policy admits after a list of admissions, where it keeps \<open>admit\<close>'s promise.\<close>

lemma admitted_all:
  assumes "\<And>p a x. allows (admit p a) x \<longleftrightarrow> x = a \<or> allows p x"
  shows "allows (foldl admit p as) x \<longleftrightarrow> x \<in> set as \<or> allows p x"
  by (induction as arbitrary: p) (auto simp: assms)

lemma location_admits_started:
  "set (location_admissions receive send) = Receive_anyone ` set receive \<union> Send_anyone ` set send"
  by (simp add: location_admissions_def)

text \<open>
  C39: Where the policy's library admits what it is told to and a new policy nothing, a build that links
  the location policy sets up exactly one, and one that does not none; and, set up from the Locations a
  node starts, it admits receiving at exactly the Receive Locations among them and sending from exactly
  the Send Locations.
\<close>

theorem started_locations_admitted:
  assumes "\<And>p a x. allows (admit p a) x \<longleftrightarrow> x = a \<or> allows p x" "\<And>x. \<not> allows new x"
  shows "map (\<lambda>policy. ({name. allows (policy receive send) (Receive_anyone name)},
                     {name. allows (policy receive send) (Send_anyone name)}))
       (linked_policies (linked f os new admit))
     = (if f ''authorize-location'' then [(set receive, set send)] else [])"
  using assms(2)
  by (auto simp: linked_def location_policies_def location_policy_def admitted_all [of allows admit, OF assms(1)]
      location_admits_started)

theorem started_locations_admitted_witness:
  "map (\<lambda>policy. ({name. Receive_anyone name \<in> policy [''In''] [''Out'']},
              {name. Send_anyone name \<in> policy [''In''] [''Out'']}))
     (linked_policies (linked (\<lambda>feature. feature = ''authorize-location'') Linux {} (\<lambda>p a. insert a p)))
   = [({''In''}, {''Out''})]"
  using started_locations_admitted [of "\<lambda>p x. x \<in> p" "\<lambda>p a. insert a p" "{}" "[''In'']" "[''Out'']"
      "\<lambda>feature. feature = ''authorize-location''" Linux]
  by simp

end
