(* ===== verification/Authority.thy ===== *)
theory Authority
  imports Configuration
begin

text \<open>
  \<open>authority.rs\<close>: the cluster's authority served by the node that keeps it.  \<open>listens\<close> is what
  \<open>--listening\<close> opens a firewall for; \<open>serve\<close> starts the ACME listener and, where it is named, the
  listener its revocation list is published on.  Both read the same table, and the lemmas show
  they agree on when there is an authority to serve.
\<close>

definition TECHNOLOGY :: string where
  "TECHNOLOGY = ''xmip-core-provision-internal-ca''"

definition NODE :: string where
  "NODE = ''node''"

record served_authority =
  directory :: string
  published :: "string option"

definition text_setting :: "(string \<times> given) list \<Rightarrow> string \<Rightarrow> string option" where
  "text_setting given key =
     (case List.find (\<lambda>(name, value). name = key \<and> value \<noteq> Other_given) given of
        Some (_, Text text) \<Rightarrow> Some text
      | _ \<Rightarrow> None)"

definition listens :: "'o document \<Rightarrow> (string \<times> string) list" where
  "listens document =
     (case doc_provision document NODE of
        None \<Rightarrow> []
      | Some given \<Rightarrow>
          if text_setting given ''source'' \<noteq> Some TECHNOLOGY then []
          else List.map_filter
            (\<lambda>(key, what). map_option (\<lambda>address. (address, what)) (text_setting given key))
            [(''serve'', ''the cluster authority's ACME''),
             (''publish'', ''the cluster authority's list'')])"

text \<open>
  The authority itself, \<open>xmip_provision_internal_ca\<close>, over a configured authority \<open>'c\<close>; each call's
  error is the words of its failure.
\<close>

record 'c internal_ca =
  ca_configured :: "(string \<times> given) list \<Rightarrow> 'c outcome"  \<comment> \<open>\<open>provision::read\<close>, \<open>configured\<close>\<close>
  ca_serves_on :: "'c \<Rightarrow> string option"
  ca_publishes_on :: "'c \<Rightarrow> string option"
  ca_serve :: "trace \<Rightarrow> path \<Rightarrow> 'c \<Rightarrow> string \<Rightarrow> string outcome"      \<comment> \<open>the directory's URL\<close>
  ca_publish :: "trace \<Rightarrow> path \<Rightarrow> 'c \<Rightarrow> string \<Rightarrow> string outcome"    \<comment> \<open>the address\<close>

definition said_of_table :: "string \<Rightarrow> string" where
  "said_of_table why = ''[provision.'' @ NODE @ '']: '' @ why"

text \<open>\<open>served\<close> of a build that links the authority, and of one that does not.\<close>

definition serve_linked ::
  "'c internal_ca \<Rightarrow> 'o document \<Rightarrow> path \<Rightarrow> trace \<Rightarrow> served_authority outcome \<times> trace" where
  "serve_linked ca document configuration tr =
     (let given = (case doc_provision document NODE of None \<Rightarrow> [] | Some table \<Rightarrow> table) in
      case map_err said_of_table (ca_configured ca given) of
        Inl problem \<Rightarrow> (Inl problem, tr)
      | Inr configured \<Rightarrow>
          (let keep = (case parent configuration of None \<Rightarrow> path_of ''.'' | Some p \<Rightarrow> p) in
           case ca_serves_on ca configured of
             None \<Rightarrow> (Inl (said_of_table ''publish names no serve beside it''), tr)
           | Some listen \<Rightarrow>
               (let tr1 = tr @ [Called ''serve''] in
                case map_err said_of_table (ca_serve ca tr keep configured listen) of
                  Inl problem \<Rightarrow> (Inl problem, tr1)
                | Inr at_directory \<Rightarrow>
                    (case ca_publishes_on ca configured of
                       None \<Rightarrow> (Inr \<lparr>directory = at_directory, published = None\<rparr>, tr1)
                     | Some listen' \<Rightarrow>
                         (case map_err said_of_table (ca_publish ca tr1 keep configured listen') of
                            Inl problem \<Rightarrow> (Inl problem, tr1 @ [Called ''publish''])
                          | Inr address \<Rightarrow>
                              (Inr \<lparr>directory = at_directory,
                                    published = Some (''http://'' @ address)\<rparr>,
                               tr1 @ [Called ''publish'']))))))"

definition serve_unlinked :: "served_authority outcome" where
  "serve_unlinked =
     Inl (''[provision.'' @ NODE @ ''] serves the cluster's authority ('' @ TECHNOLOGY
          @ ''), which this build does not link'')"

definition serve_authority ::
  "'c internal_ca option \<Rightarrow> 'o document \<Rightarrow> path \<Rightarrow> trace
     \<Rightarrow> served_authority option outcome \<times> trace" where
  "serve_authority linked_ca document configuration tr =
     (if listens document = [] then (Inr None, tr)
      else case linked_ca of
        None \<Rightarrow> (and_then serve_unlinked (\<lambda>s. Inr (Some s)), tr)
      | Some ca \<Rightarrow>
          (case serve_linked ca document configuration tr of
             (r, tr') \<Rightarrow> (and_then r (\<lambda>s. Inr (Some s)), tr')))"

section \<open>Facts\<close>

lemma serve_linked_appends:
  "\<exists>es. snd (serve_linked ca document configuration tr) = tr @ es
     \<and> set es \<subseteq> {Called ''serve'', Called ''publish''}"
  by (auto simp: serve_linked_def Let_def split: sum.splits option.splits)

lemma serve_authority_appends:
  "\<exists>es. snd (serve_authority linked_ca document configuration tr) = tr @ es
     \<and> set es \<subseteq> {Called ''serve'', Called ''publish''}"
  using serve_linked_appends
  by (auto simp: serve_authority_def case_prod_unfold split: option.splits)

lemma listens_bound:
  "set (map snd (listens document)) \<subseteq> {''the cluster authority's ACME'', ''the cluster authority's list''}
   \<and> length (listens document) \<le> 2"
  by (auto simp: listens_def List.map_filter_def split: option.splits)

text \<open>
  What \<open>--listening\<close> opens a firewall for and what the node serves agree: there is nothing to
  serve exactly where no address is to be listened on, whatever build it is; with an address, a build
  that links the authority calls it at most to serve and to publish, in that order, and one that does
  not link it calls nothing and refuses.
\<close>

lemma authority_served_where_listened:
  "(fst (serve_authority linked_ca document configuration tr) = Inr None) = (listens document = [])
   \<and> serve_authority None document configuration tr =
       ((if listens document = [] then Inr None
         else Inl (''[provision.node] serves the cluster's authority (xmip-core-provision-internal-ca), ''
                   @ ''which this build does not link'')), tr)
   \<and> snd (serve_authority linked_ca document configuration tr) \<in>
       {tr, tr @ [Called ''serve''], tr @ [Called ''serve'', Called ''publish'']}"
proof -
  have "snd (serve_linked ca document configuration tr) \<in>
      {tr, tr @ [Called ''serve''], tr @ [Called ''serve'', Called ''publish'']}" for ca
    by (auto simp: serve_linked_def Let_def split: sum.splits option.splits)
  then show ?thesis
    by (auto simp: serve_authority_def serve_unlinked_def NODE_def TECHNOLOGY_def and_then_Inr_iff
        case_prod_unfold split: option.splits)
qed

end
