(* ===== verification/Orders.thy ===== *)
theory Orders
  imports Configuration
begin

text \<open>
  \<open>orders.rs\<close>: the orders an operator leaves for the node, the place they are left in, the watch
  on it, and \<open>take\<close>, which takes each order left, oldest first, applies it and accounts for it.
  What the service is told while it serves, \<open>Told\<close> of \<open>run.rs\<close>, is here, since the watch tells it.
\<close>

type_synonym stopped_by = string

datatype told = Stop stopped_by | Orders | Acted

text \<open>
  The library: where a node's own orders lie beneath the place, the folder made, the directory
  watched, the orders left (each an order or why it is none) and what applying one answers.
\<close>

record 'order orders_api =
  order_place :: "string \<Rightarrow> string \<Rightarrow> string outcome"
  make_folder :: "trace \<Rightarrow> string \<Rightarrow> string option"
  watch_folder :: "trace \<Rightarrow> string \<Rightarrow> string option"
  orders_left :: "trace \<Rightarrow> 'order outcome list"
  apply_order :: "trace \<Rightarrow> 'order \<Rightarrow> string outcome"

definition orders_place :: "path \<Rightarrow> path" where
  "orders_place data = join_path data (path_of ''orders'')"

text \<open>What the watch tells the service of each change in the place.\<close>

definition watch_tells :: told where
  "watch_tells = Orders"

text \<open>
  The board the operate listener answers from, as \<open>xmip_runtime\<close>'s trait \<open>Published\<close> has it: what is
  posted and its number, a wait for a newer one, the waiters woken, and what an act taken there tells.
  The service's own wraps the library's: it answers as that one does, and an act taken tells the
  service.
\<close>

record ('b, 'stop) published_board =
  board_read :: "'b \<Rightarrow> nat \<times> string"
  board_wait :: "'b \<Rightarrow> nat \<Rightarrow> nat \<Rightarrow> 'stop \<Rightarrow> nat \<times> 'b"
  board_wake :: "'b \<Rightarrow> 'b"
  board_acted :: "'b \<Rightarrow> told list"

definition act_tells :: told where
  "act_tells = Acted"

definition telling :: "('b, 'stop) published_board \<Rightarrow> ('b, 'stop) published_board" where
  "telling board =
     \<lparr>board_read = \<lambda>b. board_read board b,
      board_wait = \<lambda>b after within stopped. board_wait board b after within stopped,
      board_wake = \<lambda>b. board_wake board b,
      board_acted = \<lambda>b. [act_tells]\<rparr>"

definition watch_orders ::
  "'order orders_api \<Rightarrow> string \<Rightarrow> string \<Rightarrow> trace \<Rightarrow> unit outcome \<times> trace" where
  "watch_orders api orders node tr =
     (case order_place api orders node of
        Inl problem \<Rightarrow> (Inl problem, tr)
      | Inr place \<Rightarrow>
          (case make_folder api tr place of
             Some error \<Rightarrow> (Inl (''cannot make '' @ place @ '': '' @ error), tr)
           | None \<Rightarrow>
               (case watch_folder api tr place of
                  Some error \<Rightarrow> (Inl (''cannot watch '' @ place @ '': '' @ error), tr)
                | None \<Rightarrow> (Inr (), tr @ [Watched place]))))"

fun take_each ::
  "'order orders_api \<Rightarrow> string \<Rightarrow> sink \<Rightarrow> 'order outcome list \<Rightarrow> nat \<Rightarrow> trace \<Rightarrow> nat \<times> trace" where
  "take_each api program sink [] applied_count tr = (applied_count, tr)"
| "take_each api program sink (taken # rest) applied_count tr =
     (case and_then (map_err (\<lambda>problem. ''an order no node can take: '' @ problem) taken)
             (apply_order api tr) of
        Inr said \<Rightarrow>
          take_each api program sink rest (Suc applied_count)
            (tr @ [Applied said, Println (program @ '': '' @ said)])
      | Inl problem \<Rightarrow>
          take_each api program sink rest applied_count
            (fail sink ''order'' (program @ '': '' @ problem) tr))"

definition take_orders ::
  "'order orders_api \<Rightarrow> string \<Rightarrow> sink \<Rightarrow> trace \<Rightarrow> nat \<times> trace" where
  "take_orders api program sink tr =
     take_each api program sink (orders_left api tr) 0 (tr @ [Orders_taken])"

section \<open>Every order is accounted for\<close>

definition applied :: "trace \<Rightarrow> nat" where
  "applied tr = length (filter (\<lambda>e. case e of Applied _ \<Rightarrow> True | _ \<Rightarrow> False) tr)"

lemma applied_append [simp]: "applied (xs @ ys) = applied xs + applied ys"
  by (simp add: applied_def)

lemma applied_kept [simp]: "applied (kept out tr) = applied tr"
  by (simp add: applied_def kept_def split: option.splits)

lemma applied_simps [simp]:
  "applied [] = 0"
  "applied (Applied s # es) = Suc (applied es)"
  "applied (Println s # es) = applied es"
  "applied (Eprintln s # es) = applied es"
  "applied (Audited entry # es) = applied es"
  "applied (Orders_taken # es) = applied es"
  by (simp_all add: applied_def)

lemma applied_fail [simp]: "applied (fail sink action problem tr) = applied tr"
  by (simp add: fail_def Let_def)

lemma take_each_accounts:
  "take_each api program sink left n tr = (m, tr') \<Longrightarrow>
     prefix tr tr' \<and> n \<le> m \<and> applied tr' = applied tr + (m - n)
     \<and> failures tr' = failures tr @ replicate (length left - (m - n)) ''order''
     \<and> m - n \<le> length left"
proof (induction left arbitrary: n tr)
  case (Cons taken rest)
  let ?answer = "and_then (map_err (\<lambda>problem. ''an order no node can take: '' @ problem) taken)
             (apply_order api tr)"
  show ?case
  proof (cases ?answer)
    case (Inl problem)
    let ?tr = "fail sink ''order'' (program @ '': '' @ problem) tr"
    have "take_each api program sink rest n ?tr = (m, tr')" using Cons.prems Inl by simp
    from Cons.IH [OF this] show ?thesis
      by (auto simp: Suc_diff_le replicate_app_Cons_same intro: prefix_order.trans [OF fail_prefix])
  next
    case (Inr said)
    let ?tr = "tr @ [Applied said, Println (program @ '': '' @ said)]"
    have "take_each api program sink rest (Suc n) ?tr = (m, tr')" using Cons.prems Inr by simp
    from Cons.IH [OF this] show ?thesis
      by (auto dest: append_prefixD simp: Suc_diff_le)
  qed
qed simp

text \<open>
  C18: Taking the orders left accounts for every one of them: each is applied and counted, or is
  refused and audited as one failure to \<open>order\<close>, and nothing else is; the order of the failures in the
  audit and all that was said before is kept.
\<close>

theorem every_order_applied_or_audited:
  "\<exists>refused. fst (take_orders api program sink tr) + refused = length (orders_left api tr)
     \<and> applied (snd (take_orders api program sink tr)) = applied tr + fst (take_orders api program sink tr)
     \<and> failures (snd (take_orders api program sink tr)) = failures tr @ replicate refused ''order''
     \<and> prefix tr (snd (take_orders api program sink tr))"
proof -
  let ?n = "fst (take_orders api program sink tr)" and ?tr' = "snd (take_orders api program sink tr)"
  have "take_each api program sink (orders_left api tr) 0 (tr @ [Orders_taken]) = (?n, ?tr')"
    by (simp add: take_orders_def)
  from take_each_accounts [OF this] show ?thesis
    by (intro exI [of _ "length (orders_left api tr) - ?n"]) (auto dest: append_prefixD)
qed

lemma take_orders_prefix: "prefix tr (snd (take_orders api program sink tr))"
  using take_each_accounts [of api program sink "orders_left api tr" 0 "tr @ [Orders_taken]"
      "fst (take_orders api program sink tr)" "snd (take_orders api program sink tr)"]
  by (auto simp: take_orders_def dest: append_prefixD)

lemma watch_orders_prefix: "prefix tr (snd (watch_orders api orders node tr))"
  by (simp add: watch_orders_def split: sum.splits option.splits)

lemma take_each_quiet:
  "adds quiet tr tr' \<Longrightarrow> adds quiet tr (snd (take_each api program sink left n tr'))"
proof (induction left arbitrary: n tr')
  case (Cons taken rest)
  show ?case
    by (auto split: sum.splits intro!: Cons.IH quiet_fail adds_more Cons.prems)
qed simp

lemma take_orders_quiet [adds_intros]: "adds quiet tr (snd (take_orders api program sink tr))"
  by (simp add: take_orders_def take_each_quiet adds_more)

end
