(* ===== verification/Publication.thy ===== *)
theory Publication
  imports Effects
begin

text \<open>
  \<open>publication.rs\<close>: the publisher, which writes what the node says of itself where a surface
  reads it, decides when it is due, asks a refused write again and audits one refused for a
  whole round.  Times are nanoseconds; every \<open>Instant::now\<close> and \<open>elapsed\<close> is a reading of the
  clock, which is a function of the trace, and leaves \<open>Looked\<close> in it.  What a publication is and
  how it is written belong to \<open>xmip_observe\<close> and \<open>xmip_runtime\<close>: parameters.
\<close>

section \<open>The clock\<close>

type_synonym clock = "trace \<Rightarrow> nat"

text \<open>
  What the standard library documents of \<open>Instant\<close> and \<open>thread::sleep\<close>: readings never go
  back, and a sleep lasts at least as long as it was asked to.
\<close>

definition lawful_clock :: "clock \<Rightarrow> bool" where
  "lawful_clock clk \<longleftrightarrow>
     (\<forall>tr es. clk tr \<le> clk (tr @ es)) \<and> (\<forall>tr d. clk tr + d \<le> clk (tr @ [Slept d]))"

lemma lawful_clock_mono: "lawful_clock clk \<Longrightarrow> prefix tr tr' \<Longrightarrow> clk tr \<le> clk tr'"
  by (auto simp: lawful_clock_def prefix_def)

lemma lawful_clock_sleep: "lawful_clock clk \<Longrightarrow> clk tr + d \<le> clk (tr @ [Slept d])"
  by (auto simp: lawful_clock_def)

section \<open>State\<close>

definition EVERY :: nat where
  "EVERY = 250000000"

definition AGAIN :: nat where
  "AGAIN = 1000000"

text \<open>The library calls of the publisher, over a publication type \<open>'p\<close>.\<close>

record 'p observe =
  node_says :: "trace \<Rightarrow> string \<Rightarrow> 'p"                       \<comment> \<open>\<open>Running::publication\<close>\<close>
  with_orders :: "'p \<Rightarrow> string \<Rightarrow> 'p"                         \<comment> \<open>\<open>Publication::with_orders\<close>\<close>
  to_toml :: "'p \<Rightarrow> string"                                  \<comment> \<open>\<open>Publication::to_toml\<close>\<close>
  says_stopped :: "string \<Rightarrow> string \<Rightarrow> 'p \<Rightarrow> string \<Rightarrow> 'p"   \<comment> \<open>\<open>running::publication::stopped\<close>\<close>
  write_atomic :: "trace \<Rightarrow> string \<Rightarrow> string \<Rightarrow> string option" \<comment> \<open>the error, where refused\<close>

record failing =
  since :: nat
  audited :: bool

record 'p publisher =
  pub_program :: string
  pub_path :: string
  pub_orders :: string
  pub_cluster :: string
  pub_node :: string
  written :: "nat option"
  last_published :: "'p option"
  refusing :: "failing option"

definition new_publisher ::
  "string \<Rightarrow> string \<Rightarrow> string \<Rightarrow> string \<Rightarrow> string \<Rightarrow> 'p publisher" where
  "new_publisher program path orders cluster node =
     \<lparr>pub_program = program, pub_path = path, pub_orders = orders, pub_cluster = cluster,
      pub_node = node, written = None, last_published = None, refusing = None\<rparr>"

section \<open>When\<close>

definition elapsed_since :: "clock \<Rightarrow> nat \<Rightarrow> trace \<Rightarrow> nat \<times> trace" where
  "elapsed_since clk t tr = (clk tr - t, tr @ [Looked])"

definition due :: "clock \<Rightarrow> 'p publisher \<Rightarrow> trace \<Rightarrow> bool \<times> trace" where
  "due clk p tr =
     (case written p of
        None \<Rightarrow> (True, tr)
      | Some w \<Rightarrow> (case elapsed_since clk w tr of (e, tr') \<Rightarrow> (EVERY \<le> e, tr')))"

definition next_wait :: "clock \<Rightarrow> 'p publisher \<Rightarrow> trace \<Rightarrow> nat \<times> trace" where
  "next_wait clk p tr =
     (if pred_option (\<lambda>f. \<not> audited f) (refusing p) \<and> refusing p \<noteq> None then (AGAIN, tr)
      else case written p of
        None \<Rightarrow> (0, tr)
      | Some w \<Rightarrow> (case elapsed_since clk w tr of (e, tr') \<Rightarrow> (EVERY - e, tr')))"

section \<open>Writing\<close>

definition publishing_refused :: "'p publisher \<Rightarrow> string \<Rightarrow> string" where
  "publishing_refused p error =
     pub_program p @ '': could not publish to '' @ pub_path p @ '': '' @ error"

definition publishes_again :: "'p publisher \<Rightarrow> string" where
  "publishes_again p = pub_program p @ '': publishes to '' @ pub_path p @ '' again''"

text \<open>
  A refused write.  \<open>since.elapsed()\<close> is read up to three times, each reading its own: whether
  the round has passed for \<open>written\<close>, for the audit, and for what is kept of the failure.
\<close>

definition write_refused ::
  "clock \<Rightarrow> sink \<Rightarrow> string \<Rightarrow> 'p publisher \<Rightarrow> trace \<Rightarrow> 'p publisher \<times> trace" where
  "write_refused clk sink error p tr =
     (let (began, tr1) = (case refusing p of None \<Rightarrow> (clk tr, tr @ [Looked]) | Some f \<Rightarrow> (since f, tr));
          was_audited = (case refusing p of None \<Rightarrow> False | Some f \<Rightarrow> audited f);
          (passed, tr2) = (if was_audited then (True, tr1)
                           else map_prod ((\<le>) EVERY) id (elapsed_since clk began tr1));
          (wrote_at, tr3) = (if passed then (Some (clk tr2), tr2 @ [Looked]) else (written p, tr2));
          (overdue, tr4) = (if was_audited then (False, tr3)
                            else map_prod ((\<le>) EVERY) id (elapsed_since clk began tr3));
          tr5 = (if overdue then fail sink ''publish'' (publishing_refused p error) tr4 else tr4);
          (now_audited, tr6) = (if was_audited then (True, tr5)
                                else map_prod ((\<le>) EVERY) id (elapsed_since clk began tr5))
      in (p\<lparr>written := wrote_at, refusing := Some \<lparr>since = began, audited = now_audited\<rparr>\<rparr>, tr6))"

definition write_out ::
  "'p observe \<Rightarrow> clock \<Rightarrow> sink \<Rightarrow> 'p \<Rightarrow> 'p publisher \<Rightarrow> trace \<Rightarrow> bool \<times> 'p publisher \<times> trace" where
  "write_out obs clk sink publication p tr =
     (let text = to_toml obs publication;
          outcome = write_atomic obs tr (pub_path p) text;
          tr1 = tr @ [Wrote (pub_path p) text, Posted text]
      in case outcome of
           None \<Rightarrow>
             (True, p\<lparr>written := Some (clk tr1), refusing := None\<rparr>,
              tr1 @ [Looked]
              @ (if refusing p \<noteq> None \<and> pred_option audited (refusing p)
                 then [Println (publishes_again p)] else []))
         | Some error \<Rightarrow> (False, write_refused clk sink error p tr1))"

definition publish ::
  "'p observe \<Rightarrow> clock \<Rightarrow> sink \<Rightarrow> 'p publisher \<Rightarrow> trace \<Rightarrow> 'p publisher \<times> trace" where
  "publish obs clk sink p tr =
     (let publication = with_orders obs (node_says obs tr (pub_program p)) (pub_orders p);
          (_, p', tr') = write_out obs clk sink publication p tr
      in (p'\<lparr>last_published := Some publication\<rparr>, tr'))"

section \<open>Once the node has drained\<close>

text \<open>
  The loop of \<open>stopped\<close>: written, or asked again after \<open>AGAIN\<close> while a round has not passed.
  \<open>None\<close> is fuel run out; \<open>ATTEMPTS\<close>, one more than the sleeps a round has room for, is enough
  under every lawful clock.
\<close>

fun stopped_loop ::
  "nat \<Rightarrow> 'p observe \<Rightarrow> clock \<Rightarrow> sink \<Rightarrow> 'p \<Rightarrow> nat \<Rightarrow> 'p publisher \<Rightarrow> trace
     \<Rightarrow> ('p publisher \<times> trace) option" where
  "stopped_loop 0 obs clk sink left began p tr = None"
| "stopped_loop (Suc fuel) obs clk sink left began p tr =
     (case write_out obs clk sink left p tr of
        (True, p', tr') \<Rightarrow> Some (p', tr')
      | (False, p', tr') \<Rightarrow>
          (case elapsed_since clk began tr' of
             (e, tr'') \<Rightarrow>
               if e < EVERY then stopped_loop fuel obs clk sink left began p' (tr'' @ [Slept AGAIN])
               else Some (p', tr'')))"

definition ATTEMPTS :: nat where
  "ATTEMPTS = EVERY div AGAIN + 1"

definition stopped ::
  "nat \<Rightarrow> 'p observe \<Rightarrow> clock \<Rightarrow> sink \<Rightarrow> string \<Rightarrow> 'p publisher \<Rightarrow> trace
     \<Rightarrow> ('p publisher \<times> trace) option" where
  "stopped fuel obs clk sink said p tr =
     (case last_published p of
        None \<Rightarrow> Some (p, tr)
      | Some published \<Rightarrow>
          stopped_loop fuel obs clk sink
            (says_stopped obs (pub_cluster p) (pub_node p) published said) (clk tr) p (tr @ [Looked]))"

section \<open>Shared facts\<close>

lemma elapsed_simps [simp]:
  "fst (elapsed_since clk t tr) = clk tr - t"
  "snd (elapsed_since clk t tr) = tr @ [Looked]"
  by (simp_all add: elapsed_since_def)

lemma write_refused_prefix: "prefix tr (snd (write_refused clk sink error p tr))"
  by (simp add: write_refused_def Let_def elapsed_since_def split: option.splits)

lemma write_refused_refusing:
  "\<exists>f. refusing (fst (write_refused clk sink error p tr)) = Some f
     \<and> since f = (case refusing p of None \<Rightarrow> clk tr | Some g \<Rightarrow> since g)"
  by (simp add: write_refused_def Let_def elapsed_since_def split: option.splits)

lemma write_out_prefix: "prefix tr (snd (snd (write_out obs clk sink pub p tr)))"
proof (cases "write_atomic obs tr (pub_path p) (to_toml obs pub)")
  case None
  then show ?thesis by (simp add: write_out_def Let_def)
next
  case (Some error)
  let ?tr = "tr @ [Wrote (pub_path p) (to_toml obs pub), Posted (to_toml obs pub)]"
  have "prefix tr ?tr" by simp
  also have "prefix ?tr (snd (write_refused clk sink error p ?tr))"
    by (rule write_refused_prefix)
  finally show ?thesis using Some by (simp add: write_out_def Let_def)
qed

lemma publish_prefix: "prefix tr (snd (publish obs clk sink p tr))"
  using write_out_prefix [of tr obs clk sink _ p]
  by (simp add: publish_def Let_def case_prod_unfold)

lemma due_prefix: "prefix tr (snd (due clk p tr))"
  by (simp add: due_def elapsed_since_def split: option.splits)

lemma next_wait_prefix: "prefix tr (snd (next_wait clk p tr))"
  by (simp add: next_wait_def elapsed_since_def split: option.splits)

lemma write_out_accepted_iff:
  "fst (write_out obs clk sink pub p tr) \<longleftrightarrow>
     write_atomic obs tr (pub_path p) (to_toml obs pub) = None"
  by (simp add: write_out_def Let_def split: option.splits)

lemma write_out_keeps [simp]:
  "pub_path (fst (snd (write_out obs clk sink pub p tr))) = pub_path p"
  "pub_program (fst (snd (write_out obs clk sink pub p tr))) = pub_program p"
  "last_published (fst (snd (write_out obs clk sink pub p tr))) = last_published p"
  by (simp_all add: write_out_def write_refused_def Let_def elapsed_since_def split: option.splits)

text \<open>Once a refusal was audited, the next refusals add no failure and stay audited.\<close>

lemma write_refused_audited:
  assumes "refusing p = Some f" "audited f"
  shows "refusing (fst (write_refused clk sink error p tr)) = Some f"
    and "failures (snd (write_refused clk sink error p tr)) = failures tr"
  using assms by (auto simp: write_refused_def Let_def)

text \<open>A first or still unaudited refusal audits at most once, and then it is marked so.\<close>

lemma write_refused_once:
  assumes "pred_option (\<lambda>f. \<not> audited f) (refusing p)" "lawful_clock clk"
  shows "failures (snd (write_refused clk sink error p tr)) = failures tr
     \<or> failures (snd (write_refused clk sink error p tr)) = failures tr @ [''publish'']
        \<and> pred_option audited (refusing (fst (write_refused clk sink error p tr)))"
proof -
  have mono: "EVERY \<le> clk (fail sink a q t') - b" if "EVERY \<le> clk t - b" "prefix t t'" for t t' b a q
    using lawful_clock_mono [OF assms(2) prefix_fail [OF that(2)]] that(1)
    by (meson diff_le_mono order.trans)
  show ?thesis
  proof (cases "refusing p")
    case None
    then show ?thesis
      by (auto simp add: write_refused_def Let_def elapsed_since_def elim!: mono)
  next
    case (Some f)
    then show ?thesis using assms(1)
      by (auto simp add: write_refused_def Let_def elapsed_since_def elim!: mono)
  qed
qed

text \<open>A refusal that began a whole round ago is audited, and the next try is a round later.\<close>

lemma write_refused_overdue:
  assumes "refusing p = Some f" "\<not> audited f" "lawful_clock clk" "since f + EVERY \<le> clk tr"
  shows "failures (snd (write_refused clk sink error p tr)) = failures tr @ [''publish'']"
    and "pred_option audited (refusing (fst (write_refused clk sink error p tr)))"
    and "\<exists>w\<ge>clk tr. written (fst (write_refused clk sink error p tr)) = Some w"
proof -
  have later: "EVERY \<le> clk t - since f \<and> clk tr \<le> clk t" if "prefix tr t" for t
    using lawful_clock_mono [OF assms(3) that] assms(4) by simp
  have now: "EVERY \<le> clk tr - since f" using assms(4) by simp
  have looked: "EVERY \<le> clk (tr @ es) - since f" "clk tr \<le> clk (tr @ es)" for es
    using later [of "tr @ es"] by simp_all
  have failed: "EVERY \<le> clk (fail sink a q (tr @ es)) - since f" for a q es
    using later [of "fail sink a q (tr @ es)"] by simp
  show "failures (snd (write_refused clk sink error p tr)) = failures tr @ [''publish'']"
    using assms(1,2) now looked by (simp add: write_refused_def Let_def elapsed_since_def)
  show "pred_option audited (refusing (fst (write_refused clk sink error p tr)))"
    using assms(1,2) now looked failed by (simp add: write_refused_def Let_def elapsed_since_def)
  show "\<exists>w\<ge>clk tr. written (fst (write_refused clk sink error p tr)) = Some w"
    using assms(1,2) now looked by (simp add: write_refused_def Let_def elapsed_since_def)
qed

text \<open>Publishing is quiet: it waits for nothing and is no milestone of the service's life.\<close>

lemma write_refused_adds:
  assumes "P Looked" "\<And>s. P (Eprintln s)" "\<And>q. P (Audited (Failure ''publish'' q))"
  shows "adds P tr (snd (write_refused clk sink error p tr))"
proof (cases "refusing p")
  case None
  then show ?thesis
    by (simp add: write_refused_def Let_def elapsed_since_def adds_fail adds_more assms)
next
  case (Some f)
  then show ?thesis
    by (cases "audited f")
       (simp_all add: write_refused_def Let_def elapsed_since_def adds_fail adds_more assms)
qed

lemma write_out_adds:
  assumes "P Looked" "\<And>s. P (Eprintln s)" "\<And>q. P (Audited (Failure ''publish'' q))"
    and "\<And>text. P (Wrote (pub_path p) text)" "\<And>text. P (Posted text)" "\<And>s. P (Println s)"
  shows "adds P tr (snd (snd (write_out obs clk sink pub p tr)))"
proof (cases "write_atomic obs tr (pub_path p) (to_toml obs pub)")
  case None
  then show ?thesis by (simp add: write_out_def Let_def assms)
next
  case (Some error)
  let ?tr = "tr @ [Wrote (pub_path p) (to_toml obs pub), Posted (to_toml obs pub)]"
  have "adds P tr ?tr" by (simp add: assms)
  moreover have "adds P ?tr (snd (write_refused clk sink error p ?tr))"
    using assms(1-3) by (rule write_refused_adds)
  ultimately have "adds P tr (snd (write_refused clk sink error p ?tr))" by (rule adds_trans)
  then show ?thesis using Some by (simp add: write_out_def Let_def)
qed

lemma publish_adds:
  assumes "P Looked" "\<And>s. P (Eprintln s)" "\<And>q. P (Audited (Failure ''publish'' q))"
    and "\<And>text. P (Wrote (pub_path p) text)" "\<And>text. P (Posted text)" "\<And>s. P (Println s)"
  shows "adds P tr (snd (publish obs clk sink p tr))"
  using write_out_adds [of P p, OF assms] by (simp add: publish_def Let_def case_prod_unfold)

lemma write_out_quiet [adds_intros]: "adds quiet tr (snd (snd (write_out obs clk sink pub p tr)))"
  by (rule write_out_adds) simp_all

lemma publish_quiet [adds_intros]: "adds quiet tr (snd (publish obs clk sink p tr))"
  using write_out_quiet [of tr obs clk sink _ p]
  by (simp add: publish_def Let_def case_prod_unfold)

lemma due_quiet [adds_intros]: "adds quiet tr (snd (due clk p tr))"
  by (simp add: due_def elapsed_since_def split: option.splits)

lemma next_wait_quiet [adds_intros]: "adds quiet tr (snd (next_wait clk p tr))"
  by (simp add: next_wait_def elapsed_since_def split: option.splits)

lemma stopped_loop_quiet:
  "stopped_loop fuel obs clk sink left began p tr = Some (p', tr') \<Longrightarrow> adds quiet tr tr'"
proof (induction fuel arbitrary: p tr)
  case (Suc fuel)
  let ?w = "write_out obs clk sink left p tr"
  have w: "adds quiet tr (snd (snd ?w))" by (rule write_out_quiet)
  show ?case
  proof (cases "\<not> fst ?w \<and> clk (snd (snd ?w)) - began < EVERY")
    case True
    then have "stopped_loop fuel obs clk sink left began (fst (snd ?w))
        (snd (snd ?w) @ [Looked, Slept AGAIN]) = Some (p', tr')"
      using Suc.prems by (simp add: case_prod_unfold elapsed_since_def)
    then have "adds quiet (snd (snd ?w) @ [Looked, Slept AGAIN]) tr'" by (rule Suc.IH)
    then show ?thesis by (rule adds_trans [rotated]) (simp add: adds_more w)
  next
    case False
    then have "tr' = snd (snd ?w) \<or> tr' = snd (snd ?w) @ [Looked]"
      using Suc.prems by (auto simp: case_prod_unfold elapsed_since_def split: bool.splits)
    then show ?thesis using w by (auto intro: adds_more)
  qed
qed simp

lemma stopped_quiet:
  "stopped fuel obs clk sink said p tr = Some (p', tr') \<Longrightarrow> adds quiet tr tr'"
  by (auto simp: stopped_def split: option.splits dest!: stopped_loop_quiet
      intro: adds_trans [where tr' = "tr @ [Looked]"])

section \<open>The pacing the service asks of its publisher\<close>

text \<open>
  What serving asks of a publisher: whether a publication is due, how long to wait for it, and to
  publish; the contract is that all three are quiet, that no wait is longer than a round, and that
  the wait is \<open>AGAIN\<close> while a refused write is to be asked again.
\<close>

record 'p pacing =
  is_due :: "'p \<Rightarrow> trace \<Rightarrow> bool \<times> trace"
  wait_for :: "'p \<Rightarrow> trace \<Rightarrow> nat \<times> trace"
  publish_now :: "'p \<Rightarrow> trace \<Rightarrow> 'p \<times> trace"

locale paced =
  fixes ops :: "'p pacing" and retrying :: "'p \<Rightarrow> bool"
  assumes due_is_quiet: "adds quiet tr (snd (is_due ops p tr))"
    and wait_is_quiet: "adds quiet tr (snd (wait_for ops p tr))"
    and publish_is_quiet: "adds quiet tr (snd (publish_now ops p tr))"
    and wait_bound: "fst (wait_for ops p tr) \<le> EVERY"
    and wait_retry: "retrying p \<Longrightarrow> fst (wait_for ops p tr) = AGAIN"

definition publisher_pacing ::
  "'p observe \<Rightarrow> clock \<Rightarrow> sink \<Rightarrow> 'p publisher pacing" where
  "publisher_pacing obs clk sink =
     \<lparr>is_due = due clk, wait_for = next_wait clk, publish_now = publish obs clk sink\<rparr>"

definition asked_again :: "'p publisher \<Rightarrow> bool" where
  "asked_again p \<longleftrightarrow> refusing p \<noteq> None \<and> pred_option (\<lambda>f. \<not> audited f) (refusing p)"

interpretation publisher: paced "publisher_pacing obs clk sink" asked_again for obs clk sink
proof unfold_locales
  fix p :: "'a publisher" and tr :: trace
  show "fst (wait_for (publisher_pacing obs clk sink) p tr) \<le> EVERY"
    by (simp add: publisher_pacing_def next_wait_def elapsed_since_def AGAIN_def EVERY_def
        split: option.splits)
  show "asked_again p \<Longrightarrow> fst (wait_for (publisher_pacing obs clk sink) p tr) = AGAIN"
    by (simp add: publisher_pacing_def next_wait_def asked_again_def)
qed (simp_all add: publisher_pacing_def due_quiet next_wait_quiet publish_quiet)

section \<open>Stretches of refused writes\<close>

text \<open>Writes one after another, and whether each was written.\<close>

fun write_each ::
  "'p observe \<Rightarrow> clock \<Rightarrow> sink \<Rightarrow> 'p list \<Rightarrow> 'p publisher \<Rightarrow> trace
     \<Rightarrow> bool list \<times> 'p publisher \<times> trace" where
  "write_each obs clk sink [] p tr = ([], p, tr)"
| "write_each obs clk sink (pub # pubs) p tr =
     (case write_out obs clk sink pub p tr of
        (ok, p1, tr1) \<Rightarrow>
          (case write_each obs clk sink pubs p1 tr1 of (oks, p2, tr2) \<Rightarrow> (ok # oks, p2, tr2)))"

lemma write_out_refused:
  "\<not> fst (write_out obs clk sink pub p tr) \<Longrightarrow>
     \<exists>error. snd (write_out obs clk sink pub p tr) =
       write_refused clk sink error p
         (tr @ [Wrote (pub_path p) (to_toml obs pub), Posted (to_toml obs pub)])"
  by (auto simp: write_out_def Let_def split: option.splits)

lemma write_each_audited:
  "write_each obs clk sink pubs p tr = (oks, p', tr') \<Longrightarrow> True \<notin> set oks \<Longrightarrow>
     refusing p = Some f \<Longrightarrow> audited f \<Longrightarrow> refusing p' = Some f \<and> failures tr' = failures tr"
proof (induction pubs arbitrary: p tr oks)
  case (Cons pub pubs)
  let ?w = "write_out obs clk sink pub p tr"
  obtain oks1 where rest: "write_each obs clk sink pubs (fst (snd ?w)) (snd (snd ?w)) = (oks1, p', tr')"
    and oks: "oks = fst ?w # oks1"
    using Cons.prems(1) by (auto split: prod.splits)
  obtain error where w: "snd ?w = write_refused clk sink error p
      (tr @ [Wrote (pub_path p) (to_toml obs pub), Posted (to_toml obs pub)])"
    using write_out_refused oks Cons.prems(2) by (metis (full_types) list.set_intros(1))
  have "refusing (fst (snd ?w)) = Some f" "failures (snd (snd ?w)) = failures tr"
    using write_refused_audited [OF Cons.prems(3,4)] by (simp_all add: w)
  with Cons.IH [OF rest] Cons.prems(2,4) oks show ?case by auto
qed simp

lemma write_each_once:
  "lawful_clock clk \<Longrightarrow> pred_option (\<lambda>f. \<not> audited f) (refusing p) \<Longrightarrow>
   write_each obs clk sink pubs p tr = (oks, p', tr') \<Longrightarrow> True \<notin> set oks \<Longrightarrow>
     failures tr' = failures tr \<or> failures tr' = failures tr @ [''publish'']"
proof (induction pubs arbitrary: p tr oks)
  case (Cons pub pubs)
  let ?w = "write_out obs clk sink pub p tr"
  obtain oks1 where rest: "write_each obs clk sink pubs (fst (snd ?w)) (snd (snd ?w)) = (oks1, p', tr')"
    and oks: "oks = fst ?w # oks1"
    using Cons.prems(3) by (auto split: prod.splits)
  let ?tr = "tr @ [Wrote (pub_path p) (to_toml obs pub), Posted (to_toml obs pub)]"
  obtain error where w: "snd ?w = write_refused clk sink error p ?tr"
    using write_out_refused oks Cons.prems(4) by (metis (full_types) list.set_intros(1))
  obtain f where f: "refusing (fst (snd ?w)) = Some f"
    using write_refused_refusing by (metis w)
  show ?case
  proof (cases "audited f")
    case True
    then have "failures tr' = failures (snd (snd ?w))"
      using write_each_audited [OF rest _ f] oks Cons.prems(4) by simp
    then show ?thesis
      using write_refused_once [OF Cons.prems(2,1), of sink error ?tr] by (auto simp: w)
  next
    case False
    then have "failures (snd (snd ?w)) = failures tr"
      using write_refused_once [OF Cons.prems(2,1), of sink error ?tr] f by (auto simp: w)
    then show ?thesis
      using Cons.IH [OF Cons.prems(1) _ rest] False f oks Cons.prems(4) by simp
  qed
qed simp

section \<open>The loop of stopped\<close>

lemma stopped_loop_enough:
  assumes "lawful_clock clk"
  shows "began \<le> clk tr \<Longrightarrow> EVERY - (clk tr - began) \<le> n * AGAIN \<Longrightarrow>
    \<exists>r. stopped_loop (Suc n) obs clk sink left began p tr = Some r"
proof (induction n arbitrary: p tr)
  case 0
  let ?w = "write_out obs clk sink left p tr"
  have "clk tr \<le> clk (snd (snd ?w))"
    using assms write_out_prefix by (rule lawful_clock_mono)
  then have "\<not> clk (snd (snd ?w)) - began < EVERY" using 0 by simp
  then show ?case by (auto split: prod.splits bool.splits simp: elapsed_since_def)
next
  case (Suc n)
  let ?w = "write_out obs clk sink left p tr"
  let ?slept = "snd (snd ?w) @ [Looked, Slept AGAIN]"
  have "clk tr \<le> clk (snd (snd ?w) @ [Looked])"
    using lawful_clock_mono [OF assms prefix_append_right [OF write_out_prefix]] .
  then have "clk tr + AGAIN \<le> clk ?slept"
    using lawful_clock_sleep [OF assms, of "snd (snd ?w) @ [Looked]" AGAIN] by simp
  then have "began \<le> clk ?slept" "EVERY - (clk ?slept - began) \<le> n * AGAIN"
    using Suc.prems by simp_all
  from Suc.IH [OF this] obtain r where
    "stopped_loop (Suc n) obs clk sink left began (fst (snd ?w)) ?slept = Some r" by blast
  then show ?case
    by (cases "fst ?w")
       (auto simp: elapsed_since_def case_prod_unfold split: bool.splits
         simp del: stopped_loop.simps(2) simp: stopped_loop.simps(2) [of "Suc n"])
qed

lemma write_out_refusing:
  "refusing (fst (snd (write_out obs clk sink pub p tr))) = None \<longleftrightarrow> fst (write_out obs clk sink pub p tr)"
  by (auto simp: write_out_def Let_def write_refused_def elapsed_since_def split: option.splits)

lemma stopped_loop_result:
  assumes "lawful_clock clk"
  shows "began \<le> clk tr \<Longrightarrow> stopped_loop fuel obs clk sink left began p tr = Some (p', tr') \<Longrightarrow>
    prefix tr tr' \<and> (refusing p' = None \<or> began + EVERY \<le> clk tr')"
proof (induction fuel arbitrary: p tr)
  case (Suc fuel)
  let ?w = "write_out obs clk sink left p tr"
  let ?looked = "snd (snd ?w) @ [Looked]"
  have w: "prefix tr (snd (snd ?w))" by (rule write_out_prefix)
  have began: "began \<le> clk (snd (snd ?w))"
    using lawful_clock_mono [OF assms w] Suc.prems(1) by simp
  consider (ok) "fst ?w" | (late) "\<not> fst ?w" "\<not> clk (snd (snd ?w)) - began < EVERY"
    | (again) "\<not> fst ?w" "clk (snd (snd ?w)) - began < EVERY" by blast
  then show ?case
  proof cases
    case ok
    then have "(p', tr') = snd ?w" using Suc.prems by (simp add: case_prod_unfold)
    with ok w show ?thesis using write_out_refusing by (metis fst_conv snd_conv)
  next
    case late
    then have "tr' = ?looked" using Suc.prems by (simp add: case_prod_unfold elapsed_since_def)
    moreover have "clk (snd (snd ?w)) \<le> clk ?looked"
      using assms by (auto intro: lawful_clock_mono)
    ultimately show ?thesis using late w began by auto
  next
    case again
    then have "stopped_loop fuel obs clk sink left began (fst (snd ?w)) (?looked @ [Slept AGAIN])
        = Some (p', tr')"
      using Suc.prems by (simp add: case_prod_unfold elapsed_since_def)
    moreover have "began \<le> clk (?looked @ [Slept AGAIN])"
    proof (rule order.trans [OF began])
      show "clk (snd (snd ?w)) \<le> clk (?looked @ [Slept AGAIN])"
        using assms by (rule lawful_clock_mono) simp
    qed
    ultimately have "prefix (?looked @ [Slept AGAIN]) tr'
        \<and> (refusing p' = None \<or> began + EVERY \<le> clk tr')"
      by (intro Suc.IH)
    moreover have "prefix tr (?looked @ [Slept AGAIN])"
      by (intro prefix_append_right w)
    ultimately show ?thesis using prefix_order.trans by blast
  qed
qed simp

section \<open>A world to witness with\<close>

text \<open>
  A clock that advances by what the program slept and waited, and a publication that is its own
  text, written always or never.
\<close>

fun passes :: "effect \<Rightarrow> nat" where
  "passes (Slept d) = d"
| "passes (Waited d) = d"
| "passes _ = 0"

definition logical_clock :: clock where
  "logical_clock tr = sum_list (map passes tr)"

lemma logical_clock_lawful: "lawful_clock logical_clock"
  by (simp add: lawful_clock_def logical_clock_def)

definition plain_observe :: "string option \<Rightarrow> string observe" where
  "plain_observe outcome =
     \<lparr>node_says = \<lambda>_ program. program, with_orders = \<lambda>p orders. p @ '' '' @ orders,
      to_toml = \<lambda>p. p, says_stopped = \<lambda>c n p said. said, write_atomic = \<lambda>_ _ _. outcome\<rparr>"

definition plain_publisher :: "string publisher" where
  "plain_publisher = new_publisher ''x'' ''/d/snapshot.xmip'' ''/d/orders'' ''C'' ''N''"

section \<open>Properties\<close>

text \<open>
  C12: A stretch of refused writes, however long, is audited at most once: from a publisher that is
  not failing, any number of writes that are all refused adds no failure to the audit or the one
  failure \<open>publish\<close>, under every lawful clock.
\<close>

theorem refused_publication_audited_at_most_once:
  assumes "lawful_clock clk" "refusing p = None"
    and "write_each obs clk sink pubs p tr = (oks, p', tr')" "True \<notin> set oks"
  shows "failures tr' = failures tr \<or> failures tr' = failures tr @ [''publish'']"
  using write_each_once [OF assms(1) _ assms(3,4)] assms(2) by simp

theorem refused_publication_audited_at_most_once_witness:
  "\<exists>p' tr'. write_each (plain_observe (Some ''busy'')) logical_clock (\<lambda>_ _. None) [''a'', ''b'']
       plain_publisher [] = ([False, False], p', tr')
     \<and> (failures tr' = [] \<or> failures tr' = [''publish''])"
proof -
  obtain oks p' tr' where run: "write_each (plain_observe (Some ''busy'')) logical_clock
      (\<lambda>_ _. None) [''a'', ''b''] plain_publisher [] = (oks, p', tr')"
    by (metis prod_cases3)
  have oks: "oks = [False, False]"
    using run by (auto simp: plain_observe_def write_out_def Let_def split: prod.splits)
  have fresh: "refusing plain_publisher = None"
    by (simp add: plain_publisher_def new_publisher_def)
  from refused_publication_audited_at_most_once [OF logical_clock_lawful fresh run] run oks
  show ?thesis by simp
qed

text \<open>
  A write refused again a whole round or more after the first refusal is audited as the failure
  to \<open>publish\<close>, is remembered as audited, and the publisher counts its next round from then.
\<close>

lemma publication_refused_for_a_round_is_audited:
  assumes "lawful_clock clk" "refusing p = Some f" "\<not> audited f" "since f + EVERY \<le> clk tr"
    and refused: "write_atomic obs tr (pub_path p) (to_toml obs pub) = Some error"
    and out: "write_out obs clk sink pub p tr = (ok, p', tr')"
  shows "\<not> ok \<and> failures tr' = failures tr @ [''publish''] \<and> pred_option audited (refusing p')
     \<and> (\<exists>w\<ge>clk tr. written p' = Some w)"
proof -
  let ?tr = "tr @ [Wrote (pub_path p) (to_toml obs pub), Posted (to_toml obs pub)]"
  have step: "ok = False" "p' = fst (write_refused clk sink error p ?tr)"
      "tr' = snd (write_refused clk sink error p ?tr)"
    using out refused by (auto simp add: write_out_def Let_def)
  have same: "failures ?tr = failures tr" by simp
  have later: "clk tr \<le> clk ?tr" using assms(1) by (rule lawful_clock_mono) simp
  then have "since f + EVERY \<le> clk ?tr" using assms(4) by simp
  note overdue = write_refused_overdue [OF assms(2,3,1) this, of sink error]
  from overdue(3) later have "\<exists>w\<ge>clk tr. written p' = Some w"
    unfolding step(2) using order.trans by blast
  with overdue(1,2) show ?thesis
    unfolding step same by simp
qed

theorem publication_refused_for_a_round_is_audited_witness:
  "\<exists>ok p' tr'. write_out (plain_observe (Some ''busy'')) logical_clock (\<lambda>_ _. None) ''text''
       (plain_publisher\<lparr>refusing := Some \<lparr>since = 0, audited = False\<rparr>\<rparr>) [Waited EVERY] = (ok, p', tr')
     \<and> failures tr' = [''publish''] \<and> pred_option audited (refusing p')"
proof -
  let ?p = "plain_publisher\<lparr>refusing := Some \<lparr>since = 0, audited = False\<rparr>\<rparr>"
  obtain ok p' tr' where out: "write_out (plain_observe (Some ''busy'')) logical_clock (\<lambda>_ _. None)
      ''text'' ?p [Waited EVERY] = (ok, p', tr')" by (metis prod_cases3)
  have "write_atomic (plain_observe (Some ''busy'')) [Waited EVERY] (pub_path ?p)
      (to_toml (plain_observe (Some ''busy'')) ''text'') = Some ''busy''"
    by (simp add: plain_observe_def)
  from publication_refused_for_a_round_is_audited
    [where f = "\<lparr>since = 0, audited = False\<rparr>", OF logical_clock_lawful _ _ _ this out] out
  show ?thesis by (auto simp: logical_clock_def)
qed

text \<open>
  A clock whose sixth reading is a round later than the fifth: lawful, and enough for the three
  readings of one refused write to disagree.
\<close>

definition jumping_clock :: clock where
  "jumping_clock tr =
     logical_clock tr + (if 6 \<le> length (filter (\<lambda>e. e = Looked) tr) then EVERY else 0)"

lemma jumping_clock_lawful: "lawful_clock jumping_clock"
  by (simp add: lawful_clock_def jumping_clock_def logical_clock_def)

lemma write_each_append:
  "write_each obs clk sink (xs @ ys) p tr =
     (case write_each obs clk sink xs p tr of
        (oks, p1, tr1) \<Rightarrow>
          (case write_each obs clk sink ys p1 tr1 of (oks', p2, tr2) \<Rightarrow> (oks @ oks', p2, tr2)))"
  by (induction xs arbitrary: p tr) (simp_all split: prod.splits)

lemma write_each_busy:
  "fst (write_each (plain_observe (Some error)) clk sink pubs p tr) = replicate (length pubs) False"
  by (induction pubs arbitrary: p tr)
     (simp_all add: plain_observe_def write_out_def Let_def split: prod.splits, metis fst_conv)

lemma two_writes_silenced:
  "\<exists>p' tr' f. write_each (plain_observe (Some error)) jumping_clock sink [pub, pub] plain_publisher []
       = ([False, False], p', tr') \<and> refusing p' = Some f \<and> audited f \<and> failures tr' = []"
  by (simp add: plain_observe_def plain_publisher_def new_publisher_def write_out_def
      write_refused_def elapsed_since_def Let_def jumping_clock_def logical_clock_def EVERY_def)

text \<open>
  C15: The audit of a refused publication can be lost: there is a lawful clock under which a
  publisher, refused from its first write on, is marked as audited at its second write and never
  audits the failure, however many more writes are refused.  The reading of the clock that decides
  what is kept of the failure is a later one than the reading that decides the audit.
\<close>

theorem publication_failure_can_be_silenced:
  "\<exists>clk. lawful_clock clk \<and>
     (\<forall>n. \<exists>p' tr' f. write_each (plain_observe (Some error)) clk sink (replicate (n + 2) pub)
            plain_publisher [] = (replicate (n + 2) False, p', tr')
        \<and> refusing p' = Some f \<and> audited f \<and> failures tr' = [])"
proof (rule exI [of _ jumping_clock], intro conjI allI)
  show "lawful_clock jumping_clock" by (rule jumping_clock_lawful)
  fix n
  let ?each = "write_each (plain_observe (Some error)) jumping_clock sink"
  obtain p1 tr1 f where two: "?each [pub, pub] plain_publisher [] = ([False, False], p1, tr1)"
      "refusing p1 = Some f" "audited f" "failures tr1 = []"
    using two_writes_silenced by blast
  obtain p2 tr2 where more: "?each (replicate n pub) p1 tr1 = (replicate n False, p2, tr2)"
    using write_each_busy [of error jumping_clock sink "replicate n pub" p1 tr1]
    by (metis length_replicate prod.collapse)
  have "refusing p2 = Some f \<and> failures tr2 = failures tr1"
    using write_each_audited [OF more _ two(2,3)] by simp
  moreover have "replicate (n + 2) pub = [pub, pub] @ replicate n pub" by simp
  ultimately show "\<exists>p' tr' f. ?each (replicate (n + 2) pub) plain_publisher []
      = (replicate (n + 2) False, p', tr') \<and> refusing p' = Some f \<and> audited f \<and> failures tr' = []"
    using two more by (simp only: write_each_append) simp
qed

lemma stopped_ends:
  assumes "lawful_clock clk"
  shows "\<exists>p' tr'. stopped ATTEMPTS obs clk sink said p tr = Some (p', tr') \<and> prefix tr tr'
     \<and> (last_published p = None \<or> refusing p' = None \<or> clk tr + EVERY \<le> clk tr')"
proof (cases "last_published p")
  case None
  then show ?thesis by (simp add: stopped_def)
next
  case (Some published)
  let ?left = "says_stopped obs (pub_cluster p) (pub_node p) published said"
  have began: "clk tr \<le> clk (tr @ [Looked])"
    using assms by (rule lawful_clock_mono) simp
  have "EVERY - (clk (tr @ [Looked]) - clk tr) \<le> 250 * AGAIN"
    by (simp add: EVERY_def AGAIN_def)
  from stopped_loop_enough [OF assms began this]
  obtain p' tr' where run: "stopped_loop (Suc 250) obs clk sink ?left (clk tr) p (tr @ [Looked])
      = Some (p', tr')" by fastforce
  have attempts: "ATTEMPTS = Suc 250" by (simp add: ATTEMPTS_def EVERY_def AGAIN_def)
  have "prefix (tr @ [Looked]) tr' \<and> (refusing p' = None \<or> clk tr + EVERY \<le> clk tr')"
    using assms began run by (rule stopped_loop_result)
  then show ?thesis
    using run Some attempts by (auto simp: stopped_def dest: append_prefixD)
qed

text \<open>
  C13: Publishing that the node stopped ends: under every lawful clock, \<open>ATTEMPTS\<close> writes are
  enough, and when it ends the publication was written or a whole round has passed since it began.
\<close>

theorem stopped_publication_ends:
  assumes "lawful_clock clk"
  shows "\<exists>p' tr'. stopped ATTEMPTS obs clk sink said p tr = Some (p', tr') \<and> prefix tr tr'
     \<and> (last_published p = None \<or> refusing p' = None \<or> clk tr + EVERY \<le> clk tr')"
  using assms by (rule stopped_ends)

theorem stopped_publication_ends_witness:
  "\<exists>p' tr'. stopped ATTEMPTS (plain_observe (Some ''busy'')) logical_clock (\<lambda>_ _. None) ''s''
      plain_publisher [] = Some (p', tr')"
  using stopped_publication_ends [OF logical_clock_lawful] by blast

end
