(* ===== verification/Listening.thy ===== *)
theory Listening
  imports Authority Built
begin

text \<open>
  \<open>listening.rs\<close>: the ports a node's configuration listens on, in the order the configuration
  says them, each once.  \<open>port_of\<close> reads the port of an address; \<open>listeners\<close> collects every
  listener with its port; \<open>listening\<close> keeps the first of each port and says it.
\<close>

section \<open>The port an address names\<close>

definition address_authority :: "string \<Rightarrow> string" where
  "address_authority address =
     hd (split_when (\<lambda>c. c = CHR ''/'' \<or> c = CHR ''?'')
       (case split_once ''://'' address of None \<Rightarrow> address | Some (_, rest) \<Rightarrow> rest))"

definition port_of :: "string \<Rightarrow> 16 word option" where
  "port_of address =
     Option.bind (rsplit_once CHR '':'' (address_authority address)) (\<lambda>(_, port).
       Option.bind (parse_u16 port) (\<lambda>p. if p > 0 then Some p else None))"

section \<open>What listens\<close>

text \<open>
  The library's answers: the roles a text declares, \<open>NodeRole::declared\<close>, with the Storage role;
  and of a linked transport, whether a Location chose it and whether it waits there.
\<close>

record ('o, 'role) listening_api =
  declared_roles :: "string \<Rightarrow> 'role list outcome"
  storage_role :: 'role
  chosen_by :: "transport \<Rightarrow> 'o location \<Rightarrow> bool"
  transport_waits :: "transport \<Rightarrow> 'o location \<Rightarrow> bool"

definition declares_storage :: "('o, 'role) listening_api \<Rightarrow> 'o document \<Rightarrow> bool" where
  "declares_storage api document =
     (case declared_roles api (case doc_roles document of None \<Rightarrow> [] | Some roles \<Rightarrow> roles) of
        Inl _ \<Rightarrow> False
      | Inr roles \<Rightarrow> storage_role api \<in> set roles)"

definition location_waits ::
  "('o, 'role) listening_api \<Rightarrow> transport list \<Rightarrow> 'o location \<Rightarrow> bool" where
  "location_waits api carried location =
     (case List.find (\<lambda>t. chosen_by api t location) carried of
        None \<Rightarrow> True
      | Some t \<Rightarrow> transport_waits api t location)"

definition started_locations ::
  "('o, 'role) listening_api \<Rightarrow> transport list \<Rightarrow> 'o document \<Rightarrow> 'o location list" where
  "started_locations api carried document =
     (let own = doc_receive document;
          bound = map bound_at (filter (\<lambda>b. bound_node b = doc_node document)
                    (concat (doc_applications document)))
      in filter (location_waits api carried) (filter loc_start (own @ bound)))"

definition with_port :: "string \<Rightarrow> string \<Rightarrow> (16 word \<times> string) list" where
  "with_port address listener =
     (case port_of address of None \<Rightarrow> [] | Some port \<Rightarrow> [(port, listener)])"

definition listeners ::
  "('o, 'role) listening_api \<Rightarrow> transport list \<Rightarrow> 'o document \<Rightarrow> (16 word \<times> string) list" where
  "listeners api carried document =
     (case Option.bind (doc_operate document) operate_listen of
        None \<Rightarrow> [] | Some address \<Rightarrow> with_port address ''operate'')
     @ (case doc_storage_listen document of
          None \<Rightarrow> []
        | Some address \<Rightarrow>
            if declares_storage api document then with_port address ''storage'' else [])
     @ concat (map (\<lambda>(address, what). with_port address what) (listens document))
     @ concat (map (\<lambda>l. with_port (loc_address l) (''receive location '' @ loc_name l))
         (started_locations api carried document))"

definition port_line :: "16 word \<times> string \<Rightarrow> string" where
  "port_line l = decimal (unat (fst l)) @ ''/tcp '' @ snd l"

definition listening ::
  "('o, 'role) listening_api \<Rightarrow> transport list \<Rightarrow> 'o document \<Rightarrow> string list" where
  "listening api carried document =
     map port_line (first_of_each fst [] (listeners api carried document))"

section \<open>Print or refuse\<close>

definition listening_print ::
  "'o read_document \<Rightarrow> ('o, 'role) listening_api \<Rightarrow> transport list \<Rightarrow> sink
     \<Rightarrow> string \<Rightarrow> trace \<Rightarrow> exit_code \<times> trace" where
  "listening_print read api carried sink configuration tr =
     (case read tr configuration of
        Inl reason \<Rightarrow> (REFUSED, fail sink ''listening'' (''xmip-service: '' @ reason) tr)
      | Inr document \<Rightarrow> (SUCCESS, tr @ map Println (listening api carried document)))"

lemma failures_printed [simp]: "failures (map Println lines) = []"
  by (induction lines) simp_all

interpretation listening_mode: print_or_refuse
  "\<lambda>configuration. listening_print read api carried sink configuration" "\<lambda>tr. tr" "''listening''"
  for read api carried sink
  by unfold_locales (auto simp: listening_print_def split: sum.splits)

section \<open>The port of an address, read back\<close>

lemma port_positive: "port_of address = Some p \<Longrightarrow> 0 < p"
  by (auto simp: port_of_def split: if_splits bind_splits)

lemma no_scheme:
  "CHR ''/'' \<notin> set s \<Longrightarrow> split_once ''://'' s = None"
proof (rule ccontr)
  assume clean: "CHR ''/'' \<notin> set s" and "split_once ''://'' s \<noteq> None"
  then obtain a b where "split_once ''://'' s = Some (a, b)" by auto
  then have "s = a @ ''://'' @ b" by (rule split_once_Some)
  with clean show False by simp
qed

lemma split_once_scheme:
  "CHR '':'' \<notin> set scheme \<Longrightarrow> split_once ''://'' (scheme @ ''://'' @ rest) = Some (scheme, rest)"
proof (induction scheme)
  case Nil
  then show ?case by (subst split_once.simps) (simp add: starts_with_def)
next
  case (Cons c cs)
  then have "\<not> starts_with ((c # cs) @ ''://'' @ rest) ''://''"
    by (auto simp: starts_with_def)
  then show ?case using Cons
    by (subst split_once.simps) simp
qed

lemma authority_of:
  assumes "CHR ''/'' \<notin> set a" "CHR ''?'' \<notin> set a"
    and "tail = [] \<or> hd tail \<in> {CHR ''/'', CHR ''?''}"
  shows "hd (split_when (\<lambda>c. c = CHR ''/'' \<or> c = CHR ''?'') (a @ tail)) = a"
proof -
  have "takeWhile (\<lambda>c. \<not> (c = CHR ''/'' \<or> c = CHR ''?'')) (a @ tail) = a"
    using assms by (cases tail) (auto simp: takeWhile_append2 takeWhile_tail)
  then show ?thesis by (simp add: hd_split_when)
qed

lemma port_of_authority:
  assumes "0 < p"
  shows "Option.bind (rsplit_once CHR '':'' (host @ CHR '':'' # decimal (unat p))) (\<lambda>(_, port).
       Option.bind (parse_u16 port) (\<lambda>p. if p > 0 then Some p else None)) = Some p"
proof -
  have colon: "CHR '':'' \<notin> set (decimal (unat p))"
    by (rule decimal_only_digits) simp
  have "unat p < 2 ^ LENGTH(16)" by (rule unsigned_less)
  then have "unat p \<le> 65535" by simp
  then have "parse_u16 (decimal (unat p)) = Some p"
    by (simp add: parse_u16_decimal)
  then show ?thesis using assms colon by (simp add: rsplit_once_append)
qed

lemma decimal_no_slash: "CHR ''/'' \<notin> set (decimal n)" "CHR ''?'' \<notin> set (decimal n)"
  by (rule decimal_only_digits, simp)+

lemma port_of_plain:
  assumes "CHR ''/'' \<notin> set (h @ CHR '':'' # p)" "CHR ''?'' \<notin> set (h @ CHR '':'' # p)" "CHR '':'' \<notin> set p"
  shows "port_of (h @ CHR '':'' # p) = Option.bind (parse_u16 p) (\<lambda>n. if 0 < n then Some n else None)"
  using authority_of [OF assms(1,2), of "[]"] no_scheme [OF assms(1)] rsplit_once_append [OF assms(3)]
  by (simp add: port_of_def address_authority_def)

lemma parses: "parse_u16 ''1'' = Some 1" "parse_u16 ''+80'' = Some 80" "parse_u16 ''0'' = Some 0"
  "parse_u16 ''65536'' = None"
  by (simp_all add: parse_u16_def digit_value_def)

section \<open>Properties\<close>

text \<open>
  C33: The port written in an address is the port read from it: for every positive 16-bit port, from
  \<open>host:port\<close> (the host may hold colons, as a bracketed IPv6 address does) and from
  \<open>scheme://host:port\<close> followed by nothing, a path or a query, even one that holds another
  \<open>://\<close>.
\<close>

theorem port_of_reads_what_is_written:
  assumes "0 < p" "CHR ''/'' \<notin> set host" "CHR ''?'' \<notin> set host" "CHR '':'' \<notin> set scheme"
    and "tail = [] \<or> hd tail \<in> {CHR ''/'', CHR ''?''}"
  shows "port_of (host @ '':'' @ decimal (unat p)) = Some p
     \<and> port_of (scheme @ ''://'' @ host @ '':'' @ decimal (unat p) @ tail) = Some p"
proof
  let ?a = "host @ CHR '':'' # decimal (unat p)"
  have clean: "CHR ''/'' \<notin> set ?a" "CHR ''?'' \<notin> set ?a"
    using assms(2,3) decimal_no_slash by simp_all
  show "port_of (host @ '':'' @ decimal (unat p)) = Some p"
    using authority_of [OF clean, of "[]"] port_of_authority [OF assms(1), of host]
      no_scheme [OF clean(1)]
    by (simp add: port_of_def address_authority_def)
  have "split_once ''://'' (scheme @ ''://'' @ ?a @ tail) = Some (scheme, ?a @ tail)"
    using assms(4) by (rule split_once_scheme)
  then have "address_authority (scheme @ ''://'' @ ?a @ tail) = ?a"
    using authority_of [OF clean assms(5)] by (simp add: address_authority_def)
  then show "port_of (scheme @ ''://'' @ host @ '':'' @ decimal (unat p) @ tail) = Some p"
    using port_of_authority [OF assms(1), of host] by (simp add: port_of_def)
qed

theorem port_of_reads_what_is_written_witness:
  "port_of (''0.0.0.0'' @ '':'' @ decimal (unat (8080 :: 16 word))) = Some 8080
   \<and> port_of (''http'' @ ''://'' @ ''0.0.0.0'' @ '':'' @ decimal (unat (8080 :: 16 word)) @ ''/orders'')
      = Some 8080"
  by (rule port_of_reads_what_is_written) simp_all

text \<open>
  C34: \<open>--listening\<close> says each port once, and misses none: the lines are those of a list of
  listeners with no port twice, whose ports are exactly the ports of every listener the
  configuration names, all positive, each said of the first listener that names it.
\<close>

theorem listening_says_each_port_once:
  "\<exists>kept. listening api carried document = map port_line kept
     \<and> distinct (map fst kept)
     \<and> fst ` set kept = fst ` set (listeners api carried document)
     \<and> list_all (\<lambda>l. 0 < fst l
           \<and> List.find (\<lambda>m. fst m = fst l) (listeners api carried document) = Some l) kept"
proof (intro exI conjI)
  let ?all = "listeners api carried document"
  let ?kept = "first_of_each fst [] ?all"
  show "listening api carried document = map port_line ?kept" by (simp add: listening_def)
  show "distinct (map fst ?kept)" by (rule first_of_each_distinct)
  show "fst ` set ?kept = fst ` set ?all" by (simp add: first_of_each_keys)
  have "0 < fst l" if "l \<in> set ?all" for l
    using that by (auto simp: listeners_def with_port_def port_positive split: option.splits if_splits)
  then show "list_all (\<lambda>l. 0 < fst l \<and> List.find (\<lambda>m. fst m = fst l) ?all = Some l) ?kept"
    using first_of_each_subset [of fst "[]" ?all] first_of_each_find [of _ fst "[]" ?all]
    by (auto simp: list_all_iff)
qed

text \<open>
  The port is whatever follows the last colon: a bare IPv6 host that names no port is read as if
  its last group were one, a port may be written with a plus sign, and 0 and what no 16 bits hold are
  no port.
\<close>

lemma bare_ipv6_names_a_port:
  "port_of ''::1'' = Some 1 \<and> port_of ''host:+80'' = Some 80
   \<and> port_of ''host:0'' = None \<and> port_of ''host:65536'' = None"
  using port_of_plain [of "'':''" "''1''"] port_of_plain [of "''host''" "''+80''"]
    port_of_plain [of "''host''" "''0''"] port_of_plain [of "''host''" "''65536''"]
  by (simp add: parses)
end
