(* ===== verification/Run.thy ===== *)
theory Run
  imports Publication Orders Authority Built Arguments
begin

text \<open>
  \<open>run.rs\<close>: the one way the service runs a node, whichever stop it waits for.  \<open>serve\<close> is the
  whole of it, in stages: prepare the node or refuse it, say that it serves, serve until told to
  stop, and drain.  The waits between are \<open>hear\<close> and \<open>served_loop\<close>.  The node itself is
  \<open>xmip_runtime\<close>'s \<open>Running\<close>, a parameter.
\<close>

section \<open>What the service is told\<close>

datatype ended = Stopped | Ended_refused

definition ended_code :: "ended \<Rightarrow> exit_code" where
  "ended_code e = (case e of Stopped \<Rightarrow> SUCCESS | Ended_refused \<Rightarrow> REFUSED)"

text \<open>
  \<open>recv_timeout\<close> and the \<open>try_iter\<close> after it: the first message and those waiting behind it, or
  that none came in time, or that no sender is left.
\<close>

datatype received = Received told "told list" | Timeout | Disconnected

type_synonym receiver = "trace \<Rightarrow> nat \<Rightarrow> received"

fun hear_all :: "told list \<Rightarrow> bool \<Rightarrow> bool \<Rightarrow> stopped_by + bool \<times> bool" where
  "hear_all [] orders acted = Inr (orders, acted)"
| "hear_all (Stop by # rest) orders acted = Inl by"
| "hear_all (Orders # rest) orders acted = hear_all rest True acted"
| "hear_all (Acted # rest) orders acted = hear_all rest orders True"

definition hear :: "receiver \<Rightarrow> nat \<Rightarrow> trace \<Rightarrow> (stopped_by + bool \<times> bool) \<times> trace" where
  "hear recv within tr =
     (case recv tr within of
        Timeout \<Rightarrow> Inr (False, False)
      | Disconnected \<Rightarrow> Inl ''its stop closing''
      | Received first waiting \<Rightarrow> hear_all (first # waiting) False False,
      tr @ [Waited within])"

section \<open>What happens beside the service\<close>

text \<open>
  The channel the service is told by.  While it waits, things happen: what can ask it to stop, which is
  the run's own (\<open>'e\<close>: a signal, a control), a change in the place it takes orders, an act taken over
  its operate listener.  Each has a sender: a closure of the run, which sends or does not, the watch,
  the board.  \<open>recv_timeout\<close> answers the first message sent, behind it those \<open>try_iter\<close> takes, or that
  none came; a sender is always left, the run's own \<open>tell\<close>, so never that none is.
\<close>

datatype 'e happening = Asked 'e | Place_changed | Act_taken

definition sends :: "('e \<Rightarrow> told option) \<Rightarrow> 'e happening \<Rightarrow> told option" where
  "sends asks h =
     (case h of Asked e \<Rightarrow> asks e | Place_changed \<Rightarrow> Some watch_tells | Act_taken \<Rightarrow> Some act_tells)"

definition channel :: "('e \<Rightarrow> told option) \<Rightarrow> (trace \<Rightarrow> nat \<Rightarrow> 'e happening list) \<Rightarrow> receiver" where
  "channel asks happens tr within =
     (case List.map_filter (sends asks) (happens tr within) of
        [] \<Rightarrow> Timeout
      | first # waiting \<Rightarrow> Received first waiting)"

section \<open>Serving\<close>

text \<open>
  One turn of \<open>served\<close> up to where it hears: the orders taken where one may have been left, the
  publication made where an order was applied, an act was taken or it is due, and how long to wait.
\<close>

definition before_hearing ::
  "'p pacing \<Rightarrow> (trace \<Rightarrow> nat \<times> trace) \<Rightarrow> bool \<Rightarrow> bool \<Rightarrow> 'p \<Rightarrow> trace \<Rightarrow> 'p \<times> nat \<times> trace" where
  "before_hearing ops take_left taking acted p tr =
     (let (applied_count, tr1) = (if taking then take_left tr else (0, tr));
          (now, tr2) = (if 0 < applied_count \<or> acted then (True, tr1) else is_due ops p tr1);
          (p', tr3) = (if now then publish_now ops p tr2 else (p, tr2));
          (within, tr4) = wait_for ops p' tr3
      in (p', within, tr4))"

text \<open>
  The loop of \<open>served\<close>; \<open>None\<close> is fuel run out, since a node that is never told to stop never
  returns.
\<close>

fun served_loop ::
  "nat \<Rightarrow> 'p pacing \<Rightarrow> (trace \<Rightarrow> nat \<times> trace) \<Rightarrow> receiver \<Rightarrow> bool \<Rightarrow> bool \<Rightarrow> 'p \<Rightarrow> trace
     \<Rightarrow> (stopped_by \<times> 'p \<times> trace) option" where
  "served_loop 0 ops take_left recv taking acted p tr = None"
| "served_loop (Suc fuel) ops take_left recv taking acted p tr =
     (case before_hearing ops take_left taking acted p tr of
        (p', within, tr') \<Rightarrow>
          (case hear recv within tr' of
             (Inl by, tr'') \<Rightarrow> Some (by, p', tr'')
           | (Inr (orders, acted'), tr'') \<Rightarrow>
               served_loop fuel ops take_left recv orders acted' p' tr''))"

text \<open>Orders left before the watch began are taken at once.\<close>

definition served ::
  "nat \<Rightarrow> 'p pacing \<Rightarrow> (trace \<Rightarrow> nat \<times> trace) \<Rightarrow> receiver \<Rightarrow> 'p \<Rightarrow> trace
     \<Rightarrow> (stopped_by \<times> 'p \<times> trace) option" where
  "served fuel ops take_left recv p tr = served_loop fuel ops take_left recv True False p tr"

section \<open>What serving keeps\<close>

text \<open>
  A burst is heard whole: the first stop in it wins, whatever came before or behind it; with none, an
  order or an act anywhere in it is remembered.
\<close>

definition stops :: "told list \<Rightarrow> stopped_by list" where
  "stops ms = List.map_filter (\<lambda>m. case m of Stop by \<Rightarrow> Some by | _ \<Rightarrow> None) ms"

lemma stops_simps [simp]:
  "stops [] = []" "stops (Stop by # ms) = by # stops ms"
  "stops (Orders # ms) = stops ms" "stops (Acted # ms) = stops ms"
  by (simp_all add: stops_def List.map_filter_def)

lemma hear_all_eq:
  "hear_all ms orders acted =
     (case stops ms of
        by # _ \<Rightarrow> Inl by
      | [] \<Rightarrow> Inr (orders \<or> Orders \<in> set ms, acted \<or> Acted \<in> set ms))"
  by (induction ms orders acted rule: hear_all.induct) (auto split: list.splits)

lemma hear_trace [simp]: "snd (hear recv within tr) = tr @ [Waited within]"
  by (simp add: hear_def)

definition tells_stop :: "received \<Rightarrow> bool" where
  "tells_stop r =
     (case r of Timeout \<Rightarrow> False | Disconnected \<Rightarrow> True
      | Received first waiting \<Rightarrow> stops (first # waiting) \<noteq> [])"

lemma hear_stops: "isl (fst (hear recv within tr)) \<longleftrightarrow> tells_stop (recv tr within)"
  by (auto simp: hear_def tells_stop_def hear_all_eq split: received.splits list.splits)

text \<open>Who stopped the node, read from what was received: the first stop of it, or no sender left.\<close>

definition told_to_stop :: "received \<Rightarrow> stopped_by option" where
  "told_to_stop r =
     (case r of
        Timeout \<Rightarrow> None
      | Disconnected \<Rightarrow> Some ''its stop closing''
      | Received first waiting \<Rightarrow> (case stops (first # waiting) of [] \<Rightarrow> None | by # _ \<Rightarrow> Some by))"

lemma hear_told: "fst (hear recv within tr) = Inl by \<longleftrightarrow> told_to_stop (recv tr within) = Some by"
  by (auto simp: hear_def told_to_stop_def hear_all_eq split: received.splits list.splits)

text \<open>Over a channel, that is what the first of the askings that sends a stop sends.\<close>

lemma told_by_channel:
  assumes "told_to_stop (channel asks happens tr within) = Some who"
    and "\<And>e. asks e \<noteq> Some Orders \<and> asks e \<noteq> Some Acted"
  shows "\<exists>before e after. happens tr within = before @ Asked e # after \<and> asks e = Some (Stop who)
     \<and> (\<forall>e'. Asked e' \<in> set before \<longrightarrow> asks e' = None)"
proof -
  have sends_is: "sends asks (Asked e) = asks e" "sends asks Place_changed = Some Orders"
      "sends asks Act_taken = Some Acted" for e
    by (simp_all add: sends_def watch_tells_def act_tells_def)
  have first: "stops (List.map_filter (sends asks) hs) = who # later \<Longrightarrow>
      \<exists>before e after. hs = before @ Asked e # after \<and> asks e = Some (Stop who)
        \<and> (\<forall>e'. Asked e' \<in> set before \<longrightarrow> asks e' = None)" for hs later
  proof (induction hs)
    case (Cons h hs)
    show ?case
    proof (cases "\<exists>e stop. h = Asked e \<and> asks e = Some (Stop stop)")
      case True
      then show ?thesis using Cons.prems
        by (auto simp: List.map_filter_simps sends_is intro!: exI [of _ "[]"])
    next
      case False
      have none: "asks e = None" if "h = Asked e" for e
        using False that assms(2) [of e] by (cases "asks e") (auto intro: told.exhaust)
      then have "stops (List.map_filter (sends asks) hs) = who # later"
        using Cons.prems by (cases h) (simp_all add: List.map_filter_simps sends_is)
      from Cons.IH [OF this] obtain before e after where
        "hs = before @ Asked e # after" "asks e = Some (Stop who)" "\<forall>e'. Asked e' \<in> set before \<longrightarrow> asks e' = None"
        by blast
      then show ?thesis using none by (intro exI [of _ "h # before"]) auto
    qed
  qed (simp add: List.map_filter_simps)
  obtain later where "stops (List.map_filter (sends asks) (happens tr within)) = who # later"
    using assms(1) by (auto simp: told_to_stop_def channel_def split: list.splits)
  then show ?thesis by (rule first)
qed

text \<open>The fuel of the loop is only how long it may run.\<close>

lemma served_loop_settles:
  "settles (\<lambda>fuel. served_loop fuel ops take_left recv taking acted p tr)"
proof (rule settlesI)
  fix fuel r
  show "served_loop fuel ops take_left recv taking acted p tr = Some r \<Longrightarrow>
      served_loop (Suc fuel) ops take_left recv taking acted p tr = Some r"
  proof (induction fuel arbitrary: taking acted p tr)
    case (Suc fuel)
    note unfold = served_loop.simps(2) [of _ ops take_left recv taking acted p tr]
    obtain p1 within tr1 where b: "before_hearing ops take_left taking acted p tr = (p1, within, tr1)"
      by (metis prod_cases3)
    show ?case
    proof (cases "hear recv within tr1")
      case (Pair said t)
      then show ?thesis
        using Suc by (cases said) (auto simp: b unfold simp del: served_loop.simps(2))
    qed
  qed simp
qed

lemma served_settles [settling]: "settles (\<lambda>fuel. served fuel ops take_left recv p tr)"
  unfolding served_def by (rule served_loop_settles)

locale paced_service = paced ops retrying
  for ops :: "'p pacing" and retrying +
  fixes take_left :: "trace \<Rightarrow> nat \<times> trace"
  assumes take_is_quiet: "adds quiet tr (snd (take_left tr))"
begin

lemma before_hearing_quiet:
  "adds quiet tr (snd (snd (before_hearing ops take_left taking acted p tr)))"
proof -
  define t1 where "t1 = (if taking then take_left tr else (0, tr))"
  define t2 where "t2 = (if 0 < fst t1 \<or> acted then (True, snd t1) else is_due ops p (snd t1))"
  define t3 where "t3 = (if fst t2 then publish_now ops p (snd t2) else (p, snd t2))"
  have "adds quiet tr (snd t1)" by (simp add: t1_def take_is_quiet)
  moreover have "adds quiet (snd t1) (snd t2)" by (simp add: t2_def due_is_quiet)
  moreover have "adds quiet (snd t2) (snd t3)" by (simp add: t3_def publish_is_quiet)
  moreover have "adds quiet (snd t3) (snd (wait_for ops (fst t3) (snd t3)))" by (rule wait_is_quiet)
  ultimately have "adds quiet tr (snd (wait_for ops (fst t3) (snd t3)))"
    by (meson adds_trans)
  moreover have "snd (snd (before_hearing ops take_left taking acted p tr))
      = snd (wait_for ops (fst t3) (snd t3))"
    by (simp add: before_hearing_def t1_def t2_def t3_def Let_def case_prod_unfold)
  ultimately show ?thesis by simp
qed

lemma before_hearing_bound:
  "fst (snd (before_hearing ops take_left taking acted p tr)) \<le> EVERY"
  by (simp add: before_hearing_def Let_def case_prod_unfold wait_bound)

text \<open>The induction every fact below is: one turn, then the rest of the loop.\<close>

lemma loop_turn:
  assumes "served_loop (Suc fuel) ops take_left recv taking acted p tr = Some (by, p', tr')"
  obtains p1 within tr1 where
    "before_hearing ops take_left taking acted p tr = (p1, within, tr1)"
    "adds quiet tr tr1" "within \<le> EVERY"
    "(fst (hear recv within tr1) = Inl by \<and> p' = p1 \<and> tr' = tr1 @ [Waited within])
     \<or> (\<exists>orders acted'. fst (hear recv within tr1) = Inr (orders, acted')
          \<and> served_loop fuel ops take_left recv orders acted' p1 (tr1 @ [Waited within])
            = Some (by, p', tr'))"
proof -
  obtain p1 within tr1 where b: "before_hearing ops take_left taking acted p tr = (p1, within, tr1)"
    by (metis prod_cases3)
  have "adds quiet tr tr1" "within \<le> EVERY"
    using before_hearing_quiet [of tr taking acted p] before_hearing_bound [of taking acted p tr] b
    by simp_all
  with b assms that show ?thesis
    by (cases "fst (hear recv within tr1)") (auto simp: case_prod_unfold)
qed

lemma loop_effects:
  "served_loop fuel ops take_left recv taking acted p tr = Some (by, p', tr') \<Longrightarrow>
     prefix tr tr' \<and> milestones tr' = milestones tr
     \<and> (\<exists>ws. waits tr' = waits tr @ ws \<and> ws \<noteq> [] \<and> (\<forall>d \<in> set ws. d \<le> EVERY))"
proof (induction fuel arbitrary: taking acted p tr)
  case (Suc fuel)
  from Suc.prems obtain p1 within tr1 where turn: "adds quiet tr tr1" "within \<le> EVERY"
    and rest: "tr' = tr1 @ [Waited within]
     \<or> (\<exists>orders acted'. served_loop fuel ops take_left recv orders acted' p1
          (tr1 @ [Waited within]) = Some (by, p', tr'))"
    by (rule loop_turn) blast
  have one: "prefix tr (tr1 @ [Waited within])" "milestones (tr1 @ [Waited within]) = milestones tr"
      "waits (tr1 @ [Waited within]) = waits tr @ [within]"
    using turn(1) by (auto simp: quiet_milestones quiet_waits dest: adds_prefix)
  from rest show ?case
  proof
    assume "tr' = tr1 @ [Waited within]"
    then show ?thesis using one turn(2) by (intro conjI exI [of _ "[within]"]) simp_all
  next
    assume "\<exists>orders acted'. served_loop fuel ops take_left recv orders acted' p1
          (tr1 @ [Waited within]) = Some (by, p', tr')"
    then obtain ws where ih: "prefix (tr1 @ [Waited within]) tr'"
        "milestones tr' = milestones (tr1 @ [Waited within])"
        "waits tr' = waits (tr1 @ [Waited within]) @ ws" "\<forall>d \<in> set ws. d \<le> EVERY"
      using Suc.IH by blast
    show ?thesis
    proof (intro conjI exI [of _ "within # ws"])
      show "prefix tr tr'" using one(1) ih(1) by (rule prefix_order.trans)
    qed (use one ih turn in simp_all)
  qed
qed simp

lemma loop_heard:
  "served_loop fuel ops take_left recv taking acted p tr = Some (by, p', tr') \<Longrightarrow>
     \<exists>t within. tr' = t @ [Waited within] \<and> prefix tr t \<and> told_to_stop (recv t within) = Some by"
proof (induction fuel arbitrary: taking acted p tr)
  case (Suc fuel)
  from Suc.prems obtain p1 within tr1 where "adds quiet tr tr1" and rest:
    "(fst (hear recv within tr1) = Inl by \<and> tr' = tr1 @ [Waited within])
     \<or> (\<exists>orders acted'. served_loop fuel ops take_left recv orders acted' p1
          (tr1 @ [Waited within]) = Some (by, p', tr'))"
    by (rule loop_turn) blast
  then have "prefix tr tr1" by (blast dest: adds_prefix)
  from rest show ?case
  proof
    assume "fst (hear recv within tr1) = Inl by \<and> tr' = tr1 @ [Waited within]"
    with \<open>prefix tr tr1\<close> show ?thesis by (auto simp: hear_told)
  next
    assume "\<exists>orders acted'. served_loop fuel ops take_left recv orders acted' p1
          (tr1 @ [Waited within]) = Some (by, p', tr')"
    then obtain t within' where "tr' = t @ [Waited within']" "prefix (tr1 @ [Waited within]) t"
        "told_to_stop (recv t within') = Some by"
      using Suc.IH by blast
    moreover from this \<open>prefix tr tr1\<close> have "prefix tr t" by (meson append_prefixD prefix_order.trans)
    ultimately show ?thesis by blast
  qed
qed simp

lemma loop_returns:
  assumes stop: "\<And>t within. n \<le> length (waits t) \<Longrightarrow> tells_stop (recv t within)"
  shows "0 < fuel \<Longrightarrow> n < length (waits tr) + fuel \<Longrightarrow>
    \<exists>r. served_loop fuel ops take_left recv taking acted p tr = Some r"
proof (induction fuel arbitrary: taking acted p tr)
  case (Suc fuel)
  obtain p1 within tr1 where b: "before_hearing ops take_left taking acted p tr = (p1, within, tr1)"
    by (metis prod_cases3)
  have w: "waits tr1 = waits tr"
    using before_hearing_quiet [of tr taking acted p] b by (simp add: quiet_waits)
  show ?case
  proof (cases "tells_stop (recv tr1 within)")
    case True
    then obtain by' where "fst (hear recv within tr1) = Inl by'"
      using hear_stops by (metis isl_def)
    then show ?thesis by (simp add: b case_prod_unfold)
  next
    case False
    then have "\<not> n \<le> length (waits tr1)" using stop by blast
    then have "0 < fuel" "n < length (waits (tr1 @ [Waited within])) + fuel"
      using Suc.prems w by simp_all
    moreover obtain orders acted' where "fst (hear recv within tr1) = Inr (orders, acted')"
      using False hear_stops [of recv within tr1] by (metis isl_def sum.exhaust surj_pair)
    ultimately show ?thesis
      using Suc.IH [of "tr1 @ [Waited within]" orders acted' p1]
      by (auto simp: b case_prod_unfold)
  qed
qed simp

end

interpretation service: paced_service "publisher_pacing obs clk sink" asked_again
  "take_orders api program sink" for obs clk sink api program
  by unfold_locales (rule take_orders_quiet)

section \<open>The record of the drain\<close>

record outcomes =
  out_received :: nat
  out_routed :: nat
  out_unroutable :: nat
  out_refused :: nat
  out_failed :: nat
  out_sent :: nat
  out_not_sent :: nat
  own_share :: "nat option"

definition counts :: "outcomes \<Rightarrow> (string \<times> string) list" where
  "counts out =
     map (\<lambda>(name, count). (name, decimal count))
       [(''received'', out_received out), (''routed'', out_routed out),
        (''unroutable'', out_unroutable out), (''refused'', out_refused out),
        (''failed'', out_failed out), (''sent'', out_sent out), (''not_sent'', out_not_sent out)]"

definition drained_sentence :: "stopped_by \<Rightarrow> outcomes \<Rightarrow> string \<Rightarrow> string" where
  "drained_sentence by out drained =
     ''stopped by '' @ by @ '', drained in '' @ drained @ '' ms: ''
     @ join_with '', '' (map (\<lambda>(name, count). name @ '' '' @ count) (counts out))
     @ (case own_share out of
          None \<Rightarrow> []
        | Some own \<Rightarrow> ''; Xmip's own share per Message '' @ debug_duration own)"

definition drained_properties ::
  "string \<Rightarrow> stopped_by \<Rightarrow> outcomes \<Rightarrow> string \<Rightarrow> (string \<times> string) list" where
  "drained_properties location by out drained =
     [(''node'', location), (''by'', by), (''drained_ms'', drained)] @ counts out
     @ (case own_share out of None \<Rightarrow> [] | Some own \<Rightarrow> [(''own_share_ns'', decimal own)])"

definition drained_record ::
  "sink \<Rightarrow> string \<Rightarrow> stopped_by \<Rightarrow> outcomes \<Rightarrow> string \<Rightarrow> trace \<Rightarrow> string \<times> trace" where
  "drained_record sink location by out drained tr =
     (drained_sentence by out drained,
      record_event sink ''stop'' Finished (drained_properties location by out drained) tr)"

section \<open>The node, and the declaration of its process\<close>

text \<open>
  \<open>Running\<close> of \<open>xmip_runtime\<close>, over a node type \<open>'r\<close>: started with a configuration and what the
  build linked, what it says of itself, its operate listeners by address, and its drain; and
  \<open>Declaration\<close> of \<open>xmip_node\<close>: whether a pair may be said, and whether the declaration is made.
\<close>

record ('r, 'policy) node_api =
  start_node :: "trace \<Rightarrow> string \<Rightarrow> 'policy linked_build \<Rightarrow> 'r outcome"
  refused_of :: "'r \<Rightarrow> string option"
  location_of :: "'r \<Rightarrow> string"
  data_of :: "'r \<Rightarrow> path"
  cluster_of :: "'r \<Rightarrow> string"
  node_of :: "'r \<Rightarrow> string"
  storage_said :: "trace \<Rightarrow> 'r \<Rightarrow> string"
  local_timeout :: "'r \<Rightarrow> nat"
  operate_node :: "trace \<Rightarrow> 'r \<Rightarrow> string list outcome"
  drain_node :: "trace \<Rightarrow> 'r \<Rightarrow> outcomes"
  unsayable :: "string \<Rightarrow> string \<Rightarrow> string option"
  declare_process :: "trace \<Rightarrow> (string \<times> string) list \<Rightarrow> string option"
  deadline_key :: string
  purpose_word :: "purpose \<Rightarrow> string"

text \<open>All that \<open>serve\<close> is given, and all that the world answers it.\<close>

record ('r, 'policy, 'p, 'order, 'o, 'c) service_world =
  the_node :: "('r, 'policy) node_api"
  the_linked :: "'policy linked_build"
  the_observe :: "'p observe"
  the_orders :: "'order orders_api"
  the_read :: "'o read_document"
  the_ca :: "'c internal_ca option"
  the_clock :: clock
  the_sink :: sink
  the_receiver :: receiver

definition publication_place :: "path \<Rightarrow> path" where
  "publication_place data = join_path data (path_of ''snapshot.xmip'')"

definition operated ::
  "('r, 'policy) node_api \<Rightarrow> sink \<Rightarrow> string \<Rightarrow> string \<Rightarrow> 'r \<Rightarrow> trace
     \<Rightarrow> (string list \<times> string option) option \<times> trace" where
  "operated api sink program configuration running tr =
     (case operate_node api tr running of
        Inr operate \<Rightarrow>
          (Some (operate, if operate = [] then None else Some (join_with '' and '' operate)),
           tr @ [Listened])
      | Inl refusal \<Rightarrow>
          (None, fail sink ''operate'' (program @ '': '' @ configuration @ '' '' @ refusal)
                   (tr @ [Listened])))"

definition authorized ::
  "'o read_document \<Rightarrow> 'c internal_ca option \<Rightarrow> sink \<Rightarrow> string \<Rightarrow> string \<Rightarrow> trace
     \<Rightarrow> (unit + served_authority option) \<times> trace" where
  "authorized read ca sink program configuration tr =
     (let (answer, tr1) =
        (case read tr configuration of
           Inl reason \<Rightarrow> (Inl reason, tr)
         | Inr document \<Rightarrow> serve_authority ca document (path_of configuration) tr)
      in case answer of
           Inl refusal \<Rightarrow>
             (Inl (), fail sink ''authority'' (program @ '': '' @ configuration @ '' '' @ refusal) tr1)
         | Inr None \<Rightarrow> (Inr None, tr1)
         | Inr (Some authority) \<Rightarrow>
             (Inr (Some authority),
              record_event sink ''authority'' Begin
                [(''directory'', directory authority),
                 (''published'', case published authority of None \<Rightarrow> [] | Some at \<Rightarrow> at)]
                (tr1
                 @ [Println (program @ '': the cluster's authority answers ACME at ''
                             @ directory authority)]
                 @ (case published authority of
                      None \<Rightarrow> []
                    | Some at \<Rightarrow>
                        [Println (program @ '': the cluster's authority publishes its list at ''
                                  @ at)]))))"

definition say_where ::
  "('r, 'policy) node_api \<Rightarrow> string \<Rightarrow> 'r \<Rightarrow> string \<Rightarrow> string \<Rightarrow> string option \<Rightarrow> trace \<Rightarrow> trace" where
  "say_where api who running orders snapshot operate tr =
     tr
     @ [Println (who @ '' reaches Xmip Storage through '' @ storage_said api tr running),
        Println (who @ '' takes orders at '' @ orders),
        Println (who @ '' publishes its snapshot at '' @ snapshot)]
     @ (case operate of None \<Rightarrow> [] | Some at \<Rightarrow> [Println (who @ '' is operated at '' @ at)])"

text \<open>The chain of \<open>with\<close>s and the \<open>declare\<close> at its end, the first error stopping it.\<close>

fun first_unsayable :: "('r, 'policy) node_api \<Rightarrow> (string \<times> string) list \<Rightarrow> string option" where
  "first_unsayable api [] = None"
| "first_unsayable api ((key, value) # rest) =
     (case unsayable api key value of Some problem \<Rightarrow> Some problem | None \<Rightarrow> first_unsayable api rest)"

definition declaration_pairs ::
  "('r, 'policy) node_api \<Rightarrow> 'r \<Rightarrow> string \<Rightarrow> string \<Rightarrow> string \<Rightarrow> string option
     \<Rightarrow> (string \<times> string) list" where
  "declaration_pairs api running configuration place snapshot listening =
     [(''configuration'', configuration), (''orders'', place), (''snapshot'', snapshot)]
     @ (case listening of None \<Rightarrow> [] | Some operate \<Rightarrow> [(''operate'', operate)])
     @ [(deadline_key api, decimal (local_timeout api running div 1000000))]"

definition declared ::
  "('r, 'policy) node_api \<Rightarrow> sink \<Rightarrow> string \<Rightarrow> (string \<times> string) list \<Rightarrow> trace \<Rightarrow> bool \<times> trace" where
  "declared api sink program pairs tr =
     (let problem = (case first_unsayable api pairs of
                       Some problem \<Rightarrow> Some problem
                     | None \<Rightarrow> declare_process api tr pairs)
      in case problem of
           None \<Rightarrow> (True, tr @ [Declared pairs])
         | Some words \<Rightarrow>
             (False, fail sink ''declare'' (program @ '': could not declare itself: '' @ words) tr))"

section \<open>The stages of serve\<close>

text \<open>What the first stage leaves for the others.\<close>

record ('r, 'p) prepared =
  prep_running :: 'r
  prep_publisher :: "'p publisher"
  prep_listening :: "string option"
  prep_place :: string
  prep_snapshot :: string

text \<open>
  Everything that can refuse a started node, asked in the code's order: its operate listeners, the
  cluster's authority, the watch on its orders.  Answered with where it is operated.
\<close>

definition asked ::
  "('r, 'policy, 'p, 'order, 'o, 'c) service_world \<Rightarrow> string \<Rightarrow> string \<Rightarrow> 'r \<Rightarrow> trace
     \<Rightarrow> string option option \<times> trace" where
  "asked w program configuration running tr =
     (let api = the_node w; sink = the_sink w;
          place = display (orders_place (data_of api running))
      in case operated api sink program configuration running tr of
           (None, tr1) \<Rightarrow> (None, tr1)
         | (Some (_, listening), tr1) \<Rightarrow>
             (case authorized (the_read w) (the_ca w) sink program configuration tr1 of
                (Inl _, tr2) \<Rightarrow> (None, tr2)
              | (Inr _, tr2) \<Rightarrow>
                  (case watch_orders (the_orders w) place (location_of api running) tr2 of
                     (Inl problem, tr3) \<Rightarrow>
                       (None, fail sink ''orders'' (program @ '': '' @ problem) tr3)
                   | (Inr _, tr3) \<Rightarrow> (Some listening, tr3))))"

text \<open>The node started and asked; one refused once it started is drained.\<close>

definition prepare ::
  "('r, 'policy, 'p, 'order, 'o, 'c) service_world \<Rightarrow> string \<Rightarrow> string \<Rightarrow> trace
     \<Rightarrow> ('r, 'p) prepared option \<times> trace" where
  "prepare w program configuration tr =
     (let api = the_node w; sink = the_sink w in
      case start_node api tr configuration (the_linked w) of
        Inl refusal \<Rightarrow>
          (None, fail sink ''start'' (program @ '': '' @ configuration @ '' '' @ refusal) tr)
      | Inr running \<Rightarrow>
          (let tr1 = tr @ [Started];
               tr2 = (case refused_of api running of
                        None \<Rightarrow> tr1
                      | Some refused \<Rightarrow>
                          fail sink ''configuration'' (program @ '': '' @ refused) tr1);
               place = display (orders_place (data_of api running));
               snapshot = display (publication_place (data_of api running))
           in case asked w program configuration running tr2 of
                (None, tr3) \<Rightarrow> (None, tr3 @ [Drained])
              | (Some listening, tr3) \<Rightarrow>
                  (Some \<lparr>prep_running = running,
                         prep_publisher = new_publisher program snapshot place
                           (cluster_of api running) (node_of api running),
                         prep_listening = listening, prep_place = place,
                         prep_snapshot = snapshot\<rparr>,
                   tr3)))"

text \<open>
  What the node says as it begins to serve, up to \<open>ready\<close>; whether the process declared itself.
\<close>

definition begin_serving ::
  "('r, 'policy, 'p, 'order, 'o, 'c) service_world \<Rightarrow> string \<Rightarrow> string \<Rightarrow> purpose
     \<Rightarrow> (trace \<Rightarrow> trace) \<Rightarrow> ('r, 'p) prepared \<Rightarrow> trace \<Rightarrow> bool \<times> 'p publisher \<times> trace" where
  "begin_serving w program configuration purpose ready prep tr =
     (let api = the_node w; sink = the_sink w; running = prep_running prep;
          location = location_of api running;
          tr1 = tr @ [Located location];
          (is_declared, tr2) = declared api sink program
            (declaration_pairs api running configuration (prep_place prep) (prep_snapshot prep)
               (prep_listening prep)) tr1;
          tr3 = record_event sink ''start'' Begin
            [(''node'', location), (''configuration'', configuration),
             (''purpose'', purpose_word api purpose), (''storage'', storage_said api tr2 running),
             (''orders'', prep_place prep), (''snapshot'', prep_snapshot prep),
             (''operate'', case prep_listening prep of None \<Rightarrow> [] | Some at \<Rightarrow> at)] tr2;
          tr4 = say_where api (program @ '': '' @ location) running (prep_place prep)
            (prep_snapshot prep) (prep_listening prep) tr3;
          (publisher, tr5) = publish (the_observe w) (the_clock w) sink (prep_publisher prep) tr4
      in (is_declared, publisher,
          ready (tr5 @ [Println (program @ '': '' @ location @ '' accepts work'')])))"

text \<open>From the stop to the end: the watch dropped, \<open>stopping\<close> told, the drain, its record, the last
  publication and the declaration dropped.\<close>

definition drain_and_say ::
  "('r, 'policy, 'p, 'order, 'o, 'c) service_world \<Rightarrow> string \<Rightarrow> (trace \<Rightarrow> trace) \<Rightarrow> 'r \<Rightarrow> bool
     \<Rightarrow> stopped_by \<Rightarrow> 'p publisher \<Rightarrow> trace \<Rightarrow> trace option" where
  "drain_and_say w program stopping running is_declared by publisher tr =
     (let api = the_node w; clk = the_clock w; location = location_of api running;
          tr1 = stopping (tr @ [Unwatched]);
          draining = clk tr1;
          tr2 = tr1 @ [Looked];
          out = drain_node api tr2 running;
          tr3 = tr2 @ [Drained];
          drained = decimal ((clk tr3 - draining) div 1000000);
          (said, tr4) = drained_record (the_sink w) location by out drained (tr3 @ [Looked])
      in map_option (\<lambda>(_, tr5).
           tr5 @ [Println (program @ '': '' @ location @ '' '' @ said)]
           @ (if is_declared then [Undeclared] else []))
           (stopped ATTEMPTS (the_observe w) clk (the_sink w) said publisher tr4))"

text \<open>
  \<open>serve\<close>, whole.  \<open>None\<close> only where the fuel of the waits runs out: the node was never told to
  stop.
\<close>

definition serve ::
  "('r, 'policy, 'p, 'order, 'o, 'c) service_world \<Rightarrow> string \<Rightarrow> string \<Rightarrow> purpose
     \<Rightarrow> (trace \<Rightarrow> trace) \<Rightarrow> (trace \<Rightarrow> trace) \<Rightarrow> nat \<Rightarrow> trace \<Rightarrow> (ended \<times> trace) option" where
  "serve w program configuration purpose ready stopping fuel tr =
     (case prepare w program configuration tr of
        (None, tr1) \<Rightarrow> Some (Ended_refused, tr1)
      | (Some prep, tr1) \<Rightarrow>
          (case begin_serving w program configuration purpose ready prep tr1 of
             (is_declared, publisher, tr2) \<Rightarrow>
               (case served fuel (publisher_pacing (the_observe w) (the_clock w) (the_sink w))
                       (take_orders (the_orders w) program (the_sink w)) (the_receiver w)
                       publisher tr2 of
                  None \<Rightarrow> None
                | Some (by, publisher', tr3) \<Rightarrow>
                    map_option (\<lambda>tr4. (Stopped, tr4))
                      (drain_and_say w program stopping (prep_running prep) is_declared by
                         publisher' tr3))))"

section \<open>What each stage adds\<close>

lemma operated_quiet: "adds quiet tr (snd (operated api sink program configuration running tr))"
  by (auto simp: operated_def intro!: quiet_fail split: sum.splits)

lemma serve_authority_quiet: "adds quiet tr (snd (serve_authority ca document configuration tr))"
proof -
  obtain es where "snd (serve_authority ca document configuration tr) = tr @ es"
      "set es \<subseteq> {Called ''serve'', Called ''publish''}"
    using serve_authority_appends by blast
  then show ?thesis by (auto simp: list_all_iff)
qed

lemma serve_authority_failures [simp]:
  "failures (snd (serve_authority ca document configuration tr)) = failures tr"
proof -
  obtain es where es: "snd (serve_authority ca document configuration tr) = tr @ es"
      "set es \<subseteq> {Called ''serve'', Called ''publish''}"
    using serve_authority_appends by blast
  have "failures es = []" using es(2) by (induction es) auto
  then show ?thesis by (simp add: es(1))
qed

lemma authorized_quiet: "adds quiet tr (snd (authorized read ca sink program configuration tr))"
  using serve_authority_quiet [of tr ca _ "path_of configuration"]
  by (auto simp: authorized_def Let_def case_prod_unfold
      intro!: quiet_fail quiet_record_event adds_more split: sum.splits option.splits)

lemma operated_failures:
  "failures (snd (operated api sink program configuration running tr)) =
     failures tr @ (if fst (operated api sink program configuration running tr) = None
                    then [''operate''] else [])"
  by (auto simp: operated_def split: sum.splits)

lemma failures_println [simp]: "failures (Println s # es) = failures es"
  by simp

lemma authorized_failures:
  "failures (snd (authorized read ca sink program configuration tr)) =
     failures tr @ (if isl (fst (authorized read ca sink program configuration tr))
                    then [''authority''] else [])"
  by (auto simp: authorized_def Let_def case_prod_unfold split: sum.splits option.splits)

lemma watch_orders_effects:
  "milestones (snd (watch_orders api orders node tr)) =
     milestones tr @ (case fst (watch_orders api orders node tr) of
        Inl _ \<Rightarrow> [] | Inr _ \<Rightarrow> [Watched (projr (order_place api orders node))])"
  "failures (snd (watch_orders api orders node tr)) = failures tr"
  "waits (snd (watch_orders api orders node tr)) = waits tr"
  by (auto simp: watch_orders_def split: sum.splits option.splits)

lemmas quiet_stages [simp] =
  operated_quiet [THEN quiet_milestones] operated_quiet [THEN quiet_waits]
  authorized_quiet [THEN quiet_milestones] authorized_quiet [THEN quiet_waits]
  publish_quiet [THEN quiet_milestones] publish_quiet [THEN quiet_waits]

lemmas stage_effects = operated_failures authorized_failures watch_orders_effects

lemma asked_refused:
  "asked w program configuration running tr = (None, tr') \<Longrightarrow>
     milestones tr' = milestones tr \<and> waits tr' = waits tr
     \<and> (\<exists>why \<in> {''operate'', ''authority'', ''orders''}. failures tr' = failures tr @ [why])"
  by (auto simp: asked_def Let_def case_prod_unfold stage_effects split: option.splits sum.splits)

lemma asked_accepted:
  "asked w program configuration running tr = (Some listening, tr') \<Longrightarrow>
     (\<exists>place. milestones tr' = milestones tr @ [Watched place])
     \<and> waits tr' = waits tr \<and> failures tr' = failures tr"
  by (auto simp: asked_def Let_def case_prod_unfold stage_effects split: option.splits sum.splits)

text \<open>The failures a refused node is audited with: its configuration's, where it was refused and the
  node started with the one before, and what refused it.\<close>

definition refusals :: "string list list" where
  "refusals = [[''start''], [''operate''], [''authority''], [''orders''],
     [''configuration'', ''operate''], [''configuration'', ''authority''],
     [''configuration'', ''orders'']]"

text \<open>Nothing of the first stage waits for what the node is told.\<close>

lemma asked_any_receiver [simp]: "asked (w\<lparr>the_receiver := recv\<rparr>) = asked w"
  by (simp add: fun_eq_iff asked_def Let_def case_prod_unfold split: option.split sum.split)

lemma prepare_any_receiver [simp]: "prepare (w\<lparr>the_receiver := recv\<rparr>) = prepare w"
  by (simp add: fun_eq_iff prepare_def Let_def split: option.split sum.split)

lemma prepare_refused:
  assumes "prepare w program configuration tr = (None, tr')"
  shows "milestones tr' = milestones tr @
      (if isl (start_node (the_node w) tr configuration (the_linked w)) then [] else [Started, Drained])
    \<and> waits tr' = waits tr \<and> (\<exists>why \<in> set refusals. failures tr' = failures tr @ why)"
proof (cases "start_node (the_node w) tr configuration (the_linked w)")
  case (Inl refusal)
  then show ?thesis using assms by (auto simp: prepare_def refusals_def)
next
  case (Inr running)
  define tr2 where "tr2 = (case refused_of (the_node w) running of None \<Rightarrow> tr @ [Started]
    | Some refused \<Rightarrow>
        fail (the_sink w) ''configuration'' (program @ '': '' @ refused) (tr @ [Started]))"
  define cfg where "cfg = (if refused_of (the_node w) running = None then [] else [''configuration''])"
  have tr2: "failures tr2 = failures tr @ cfg" "milestones tr2 = milestones tr @ [Started]"
      "waits tr2 = waits tr"
    by (auto simp: tr2_def cfg_def split: option.splits)
  obtain tr3 where "asked w program configuration running tr2 = (None, tr3)" "tr' = tr3 @ [Drained]"
    using assms Inr by (auto simp: prepare_def Let_def tr2_def split: prod.splits option.splits)
  moreover have "cfg = [] \<or> cfg = [''configuration'']" by (simp add: cfg_def)
  ultimately show ?thesis
    using asked_refused [of w program configuration running tr2 tr3] tr2 Inr
    by (auto simp: refusals_def)
qed

lemma prepare_accepted:
  assumes "prepare w program configuration tr = (Some prep, tr')"
  shows "\<exists>place. milestones tr' = milestones tr @ [Started, Watched place]" "waits tr' = waits tr"
proof -
  obtain running where running: "start_node (the_node w) tr configuration (the_linked w) = Inr running"
    using assms by (cases "start_node (the_node w) tr configuration (the_linked w)")
      (simp_all add: prepare_def Let_def)
  define tr2 where "tr2 = (case refused_of (the_node w) running of None \<Rightarrow> tr @ [Started]
    | Some refused \<Rightarrow>
        fail (the_sink w) ''configuration'' (program @ '': '' @ refused) (tr @ [Started]))"
  have tr2: "milestones tr2 = milestones tr @ [Started]" "waits tr2 = waits tr"
    by (auto simp: tr2_def split: option.splits)
  obtain listening where "asked w program configuration running tr2 = (Some listening, tr')"
    using assms running
    by (auto simp: prepare_def Let_def tr2_def split: prod.splits option.splits)
  from asked_accepted [OF this] tr2
  show "\<exists>place. milestones tr' = milestones tr @ [Started, Watched place]" "waits tr' = waits tr"
    by auto
qed

lemma declared_effects:
  "milestones (snd (declared api sink program pairs tr)) =
     milestones tr @ (if fst (declared api sink program pairs tr) then [Declared pairs] else [])"
  "waits (snd (declared api sink program pairs tr)) = waits tr"
  by (auto simp: declared_def Let_def split: option.splits)

lemma say_where_same [simp]:
  "milestones (say_where api who running orders snapshot operate tr) = milestones tr"
  "waits (say_where api who running orders snapshot operate tr) = waits tr"
  by (auto simp: say_where_def split: option.splits)

lemma begin_serving_effects:
  assumes "\<And>t. \<exists>r \<in> R. milestones (ready t) = milestones t @ r"
    and "begin_serving w program configuration purpose ready prep tr = (is_declared, publisher, tr')"
  shows "\<exists>pairs. \<exists>r \<in> R. milestones tr' =
     milestones tr @ (if is_declared then [Declared pairs] else []) @ r"
proof -
  obtain t pairs where t: "tr' = ready t"
      "milestones t = milestones tr @ (if is_declared then [Declared pairs] else [])"
    using assms(2)
    by (auto simp: begin_serving_def Let_def case_prod_unfold declared_effects)
  with assms(1) [of t] show ?thesis by auto
qed

lemma drain_and_say_effects:
  assumes "\<And>t. \<exists>s \<in> S. milestones (stopping t) = milestones t @ s"
    and "drain_and_say w program stopping running is_declared by publisher tr = Some tr'"
  shows "\<exists>s \<in> S. milestones tr' = milestones tr @ [Unwatched] @ s @ [Drained]
     @ (if is_declared then [Undeclared] else [])"
proof -
  obtain s where "s \<in> S" "milestones (stopping (tr @ [Unwatched])) = milestones tr @ [Unwatched] @ s"
    using assms(1) [of "tr @ [Unwatched]"] by auto
  with assms(2) show ?thesis
    by (auto simp: drain_and_say_def Let_def case_prod_unfold drained_record_def
        dest!: stopped_quiet [THEN quiet_milestones])
qed

text \<open>Whatever the last publication does, what was recorded of the drain stays.\<close>

lemma drain_and_say_stages:
  assumes "drain_and_say w program stopping running is_declared by publisher tr = Some tr'"
    and "t = stopping (tr @ [Unwatched])" "out = drain_node (the_node w) (t @ [Looked]) running"
    and "ms = decimal ((the_clock w (t @ [Looked, Drained]) - the_clock w t) div 1000000)"
    and "recorded = record_event (the_sink w) ''stop'' Finished
       (drained_properties (location_of (the_node w) running) by out ms) (t @ [Looked, Drained, Looked])"
  shows "\<exists>p' t'. stopped ATTEMPTS (the_observe w) (the_clock w) (the_sink w) (drained_sentence by out ms)
       publisher recorded = Some (p', t')
     \<and> tr' = t' @ [Println (program @ '': '' @ location_of (the_node w) running @ '' '' @ drained_sentence by out ms)]
         @ (if is_declared then [Undeclared] else [])"
  using assms by (auto simp: drain_and_say_def Let_def case_prod_unfold drained_record_def)

lemma drain_and_say_recorded:
  assumes "drain_and_say w program stopping running is_declared by publisher tr = Some tr'"
    and "t = stopping (tr @ [Unwatched])"
  shows "prefix (record_event (the_sink w) ''stop'' Finished
        (drained_properties (location_of (the_node w) running) by
           (drain_node (the_node w) (t @ [Looked]) running)
           (decimal ((the_clock w (t @ [Looked, Drained]) - the_clock w t) div 1000000)))
        (t @ [Looked, Drained, Looked])) tr'"
    (is "prefix ?recorded tr'")
proof -
  obtain p5 t5 said where "stopped ATTEMPTS (the_observe w) (the_clock w) (the_sink w) said publisher ?recorded
      = Some (p5, t5)" "prefix t5 tr'"
    using drain_and_say_stages [OF assms refl refl refl] by blast
  then show ?thesis using adds_prefix [OF stopped_quiet] by (blast intro: prefix_order.trans)
qed

lemma drain_and_say_prefix:
  assumes "\<And>t. prefix t (stopping t)"
    and "drain_and_say w program stopping running is_declared by publisher tr = Some tr'"
  shows "prefix tr tr'"
proof -
  let ?t = "stopping (tr @ [Unwatched])"
  have "prefix (tr @ [Unwatched]) ?t" by (rule assms(1))
  then have "prefix tr ?t" by (rule append_prefixD)
  moreover have "prefix (?t @ [Looked, Drained, Looked]) tr'"
    using adds_prefix [OF quiet_record_event [OF adds_refl]] drain_and_say_recorded [OF assms(2) refl]
    by (rule prefix_order.trans)
  ultimately show ?thesis by (meson append_prefixD prefix_order.trans)
qed

text \<open>What the record of a stop says.\<close>

lemma drained_properties_say:
  assumes "ps = btree_map (drained_properties location by out ms)"
  shows "map_of ps ''node'' = Some location" "map_of ps ''by'' = Some by" "map_of ps ''drained_ms'' = Some ms"
    "map_of ps ''received'' = Some (decimal (out_received out))"
    "map_of ps ''routed'' = Some (decimal (out_routed out))"
    "map_of ps ''unroutable'' = Some (decimal (out_unroutable out))"
    "map_of ps ''refused'' = Some (decimal (out_refused out))"
    "map_of ps ''failed'' = Some (decimal (out_failed out))"
    "map_of ps ''sent'' = Some (decimal (out_sent out))"
    "map_of ps ''not_sent'' = Some (decimal (out_not_sent out))"
    "map_of ps ''own_share_ns'' = map_option decimal (own_share out)"
  unfolding assms
  by (simp_all add: btree_map_lookup drained_properties_def counts_def split: option.splits)

lemma record_event_front: "prefix (t @ [Audited (Event a p (btree_map qs))]) (record_event sink a p qs t)"
  by (simp add: record_event_def Let_def kept_def split: option.splits)

lemma drain_and_say_records:
  assumes "drain_and_say w program stopping running is_declared by publisher tr = Some tr'"
    and "t = stopping (tr @ [Unwatched])" "out = drain_node (the_node w) (t @ [Looked]) running"
    and "ms = (the_clock w (t @ [Looked, Drained]) - the_clock w t) div 1000000"
  shows "\<exists>ps. prefix (t @ [Looked, Drained, Looked, Audited (Event ''stop'' Finished ps)]) tr'
     \<and> map_of ps ''node'' = Some (location_of (the_node w) running) \<and> map_of ps ''by'' = Some by
     \<and> map_of ps ''drained_ms'' = Some (decimal ms)
     \<and> map_of ps ''received'' = Some (decimal (out_received out))
     \<and> map_of ps ''routed'' = Some (decimal (out_routed out))
     \<and> map_of ps ''unroutable'' = Some (decimal (out_unroutable out))
     \<and> map_of ps ''refused'' = Some (decimal (out_refused out))
     \<and> map_of ps ''failed'' = Some (decimal (out_failed out))
     \<and> map_of ps ''sent'' = Some (decimal (out_sent out))
     \<and> map_of ps ''not_sent'' = Some (decimal (out_not_sent out))
     \<and> map_of ps ''own_share_ns'' = map_option decimal (own_share out)"
proof -
  let ?qs = "drained_properties (location_of (the_node w) running) by out (decimal ms)"
  have "prefix ((t @ [Looked, Drained, Looked]) @ [Audited (Event ''stop'' Finished (btree_map ?qs))]) tr'"
    using record_event_front drain_and_say_recorded [OF assms(1,2)]
    unfolding assms(3,4) by (rule prefix_order.trans)
  then show ?thesis by (intro exI [of _ "btree_map ?qs"]) (simp add: drained_properties_say [OF refl])
qed

lemma drain_and_say_audits:
  assumes "drain_and_say w program stopping running is_declared by publisher tr = Some tr'"
  shows "\<exists>ps. Audited (Event ''stop'' Finished ps) \<in> set tr' \<and> map_of ps ''by'' = Some by"
  using drain_and_say_records [OF assms refl refl refl] by (auto simp: prefix_def)

text \<open>
  A node refused after it was started is refused by its operate listeners exactly where these do not
  answer, behind the failure of its configuration where it was started on an earlier one.
\<close>

lemma asked_prefix: "prefix tr (snd (asked w program configuration running tr))"
proof -
  define t1 where "t1 = snd (operated (the_node w) (the_sink w) program configuration running tr)"
  define t2 where "t2 = snd (authorized (the_read w) (the_ca w) (the_sink w) program configuration t1)"
  define t3 where "t3 = snd (watch_orders (the_orders w) (display (orders_place (data_of (the_node w) running)))
    (location_of (the_node w) running) t2)"
  have "prefix tr t1" "prefix t1 t2" "prefix t2 t3"
    by (simp_all add: t1_def t2_def t3_def adds_prefix [OF operated_quiet] adds_prefix [OF authorized_quiet]
        watch_orders_prefix)
  then have "prefix tr t1" "prefix tr t2" "prefix tr t3" by (blast intro: prefix_order.trans)+
  then show ?thesis
    by (auto simp: asked_def Let_def case_prod_unfold t1_def t2_def t3_def
        intro: prefix_fail split: option.split sum.split)
qed

lemma asked_refused_by:
  assumes "asked w program configuration running tr = (None, tr')"
  shows "prefix tr tr' \<and> (\<exists>why \<in> {''operate'', ''authority'', ''orders''}. failures tr' = failures tr @ [why]
     \<and> (why = ''operate'' \<longleftrightarrow> isl (operate_node (the_node w) tr running)))"
proof -
  have "prefix tr tr'" using asked_prefix [of tr w program configuration running] assms by simp
  then show ?thesis
    using assms
    by (auto simp: asked_def Let_def case_prod_unfold stage_effects operated_def split: option.splits sum.splits)
qed

lemma prepare_refused_by:
  assumes "prepare w program configuration tr = (None, tr')"
  shows "case start_node (the_node w) tr configuration (the_linked w) of
      Inl refusal \<Rightarrow> failures tr' = failures tr @ [''start'']
    | Inr running \<Rightarrow>
        (let t = (case refused_of (the_node w) running of
             None \<Rightarrow> tr @ [Started]
           | Some refused \<Rightarrow> fail (the_sink w) ''configuration'' (program @ '': '' @ refused) (tr @ [Started]))
         in prefix t tr' \<and> (\<exists>why \<in> {''operate'', ''authority'', ''orders''}.
              failures tr' = failures tr
                @ (if refused_of (the_node w) running = None then [] else [''configuration'']) @ [why]
              \<and> (why = ''operate'' \<longleftrightarrow> isl (operate_node (the_node w) t running))))"
proof (cases "start_node (the_node w) tr configuration (the_linked w)")
  case (Inl refusal)
  then show ?thesis using assms by (auto simp: prepare_def)
next
  case (Inr running)
  define t where "t = (case refused_of (the_node w) running of None \<Rightarrow> tr @ [Started]
    | Some refused \<Rightarrow>
        fail (the_sink w) ''configuration'' (program @ '': '' @ refused) (tr @ [Started]))"
  have "failures t = failures tr @ (if refused_of (the_node w) running = None then [] else [''configuration''])"
    by (auto simp: t_def split: option.splits)
  moreover obtain tr3 where "asked w program configuration running t = (None, tr3)" "tr' = tr3 @ [Drained]"
    using assms Inr by (auto simp: prepare_def Let_def t_def split: prod.splits option.splits)
  moreover note asked_refused_by [OF this(1)]
  ultimately have "prefix t tr' \<and> (\<exists>why \<in> {''operate'', ''authority'', ''orders''}.
      failures tr' = failures tr
        @ (if refused_of (the_node w) running = None then [] else [''configuration'']) @ [why]
      \<and> (why = ''operate'' \<longleftrightarrow> isl (operate_node (the_node w) t running)))"
    by auto
  then show ?thesis unfolding Let_def t_def using Inr by simp
qed

end
