(* ===== verification/Lifecycle.thy ===== *)
theory Lifecycle
  imports Run
begin

text \<open>
  What \<open>run.rs\<close> promises of a whole run: the order of a node's life, that a refusal is drained and
  audited, that the stop is recorded under the name of who told it, that the run ends once a stop
  was told, how long it ever waits, and what it publishes at once.  The properties rest on the
  stages of Run and on the interpretation \<open>service\<close> of its loop.
\<close>

section \<open>The stages put together\<close>

text \<open>A run is either refused by \<open>prepare\<close>, or its other three stages in order.\<close>

lemma serve_cases:
  assumes "serve w program configuration purpose ready stopping fuel tr = Some (e, tr')"
  obtains (refused) "prepare w program configuration tr = (None, tr')" "e = Ended_refused"
  | (stopped) prep tr1 is_declared publisher tr2 who publisher' tr3 where
    "e = Stopped" "prepare w program configuration tr = (Some prep, tr1)"
    "begin_serving w program configuration purpose ready prep tr1 = (is_declared, publisher, tr2)"
    "served fuel (publisher_pacing (the_observe w) (the_clock w) (the_sink w))
       (take_orders (the_orders w) program (the_sink w)) (the_receiver w) publisher tr2
     = Some (who, publisher', tr3)"
    "drain_and_say w program stopping (prep_running prep) is_declared who publisher' tr3 = Some tr'"
  using assms by (auto simp: serve_def split: prod.splits option.splits)

lemma begin_serving_waits:
  assumes "\<And>t. waits (ready t) = waits t"
    and "begin_serving w program configuration purpose ready prep tr = (is_declared, publisher, tr')"
  shows "waits tr' = waits tr"
  using assms(2)
  by (auto simp: begin_serving_def Let_def case_prod_unfold assms(1) declared_effects)

lemma drain_and_say_waits:
  assumes "\<And>t. waits (stopping t) = waits t"
    and "drain_and_say w program stopping running is_declared who publisher tr = Some tr'"
  shows "waits tr' = waits tr"
  using assms(2)
  by (auto simp: drain_and_say_def Let_def case_prod_unfold assms(1) drained_record_def
      dest!: stopped_quiet [THEN quiet_waits])

lemma drain_and_say_returns:
  assumes "lawful_clock (the_clock w)"
  shows "\<exists>tr'. drain_and_say w program stopping running is_declared who publisher tr = Some tr'"
proof -
  have "stopped ATTEMPTS obs (the_clock w) sink said p t \<noteq> None" for obs sink said p t
    using stopped_ends [OF assms] by fastforce
  then have "drain_and_say w program stopping running is_declared who publisher tr \<noteq> None"
    by (simp add: drain_and_say_def Let_def case_prod_unfold)
  then show ?thesis by blast
qed

lemma serve_settles [settling]:
  "settles (\<lambda>fuel. serve w program configuration purpose ready stopping fuel tr)"
proof (rule settlesI)
  fix fuel r
  note more = settlesD [OF served_settles, where n = fuel and m = "Suc fuel"]
  show "serve w program configuration purpose ready stopping fuel tr = Some r \<Longrightarrow>
      serve w program configuration purpose ready stopping (Suc fuel) tr = Some r"
    by (auto simp: serve_def dest!: more split: prod.splits option.splits)
qed
lemma prepare_waits: "waits (snd (prepare w program configuration tr)) = waits tr"
proof (cases "prepare w program configuration tr")
  case (Pair out tr')
  then show ?thesis
    using prepare_refused [of w program configuration tr tr']
      prepare_accepted(2) [of w program configuration tr "the out" tr']
    by (cases out) simp_all
qed

section \<open>The order of a node's life\<close>

lemma life_in_order:
  assumes "\<And>t. \<exists>r \<in> R. milestones (ready t) = milestones t @ r"
    and "\<And>t. \<exists>s \<in> S. milestones (stopping t) = milestones t @ s"
    and "serve w program configuration purpose ready stopping fuel tr = Some (e, tr')"
  shows "(e = Ended_refused \<and>
        (milestones tr' = milestones tr \<or> milestones tr' = milestones tr @ [Started, Drained]))
    \<or> (e = Stopped \<and> (\<exists>place. \<exists>r \<in> R. \<exists>s \<in> S.
         milestones tr' = milestones tr @ [Started, Watched place] @ r @ [Unwatched] @ s @ [Drained]
         \<or> (\<exists>pairs. milestones tr' = milestones tr @ [Started, Watched place, Declared pairs] @ r
               @ [Unwatched] @ s @ [Drained, Undeclared])))"
  using assms(3)
proof (cases rule: serve_cases)
  case refused
  from prepare_refused [OF this(1)] refused(2) show ?thesis by (auto split: if_splits)
next
  case (stopped prep tr1 is_declared publisher tr2 who publisher' tr3)
  obtain place where "milestones tr1 = milestones tr @ [Started, Watched place]"
    using prepare_accepted(1) [OF stopped(2)] by blast
  moreover obtain pairs r where "r \<in> R"
    "milestones tr2 = milestones tr1 @ (if is_declared then [Declared pairs] else []) @ r"
    using begin_serving_effects [OF assms(1) stopped(3)] by blast
  moreover have "milestones tr3 = milestones tr2"
    using service.loop_effects [OF stopped(4) [unfolded served_def]] by blast
  moreover obtain s where "s \<in> S" "milestones tr' = milestones tr3 @ [Unwatched] @ s @ [Drained]
     @ (if is_declared then [Undeclared] else [])"
    using drain_and_say_effects [OF assms(2) stopped(5)] by blast
  ultimately have "milestones tr' = milestones tr @ [Started, Watched place]
      @ (if is_declared then [Declared pairs] else []) @ r
      @ [Unwatched] @ s @ [Drained] @ (if is_declared then [Undeclared] else [])"
    by simp
  with \<open>r \<in> R\<close> \<open>s \<in> S\<close> stopped(1) show ?thesis by (cases is_declared) force+
qed


lemma run_refused:
  assumes "serve w program configuration purpose ready stopping fuel tr = Some (Ended_refused, tr')"
  shows "waits tr' = waits tr \<and> (\<exists>why \<in> set refusals. failures tr' = failures tr @ why)"
  using assms
proof (cases rule: serve_cases)
  case refused
  then show ?thesis using prepare_refused by blast
qed simp

text \<open>
  C6: A refused run waited for nothing and was audited.  Where the node does not start that is one
  failure of \<open>start\<close>.  Where it does, the failure of \<open>configuration\<close> is audited first, with the words of
  what was refused, exactly where the node was started on an earlier configuration, and then exactly one
  failure more, of \<open>operate\<close>, \<open>authority\<close> or \<open>orders\<close>: of \<open>operate\<close> exactly where the operate listeners
  do not answer.
\<close>

theorem refused_run_is_audited:
  assumes "serve w program configuration purpose ready stopping fuel tr = Some (Ended_refused, tr')"
  shows "waits tr' = waits tr
     \<and> (case start_node (the_node w) tr configuration (the_linked w) of
          Inl refusal \<Rightarrow> failures tr' = failures tr @ [''start'']
        | Inr running \<Rightarrow>
            (let t = (case refused_of (the_node w) running of
                 None \<Rightarrow> tr @ [Started]
               | Some refused \<Rightarrow> fail (the_sink w) ''configuration'' (program @ '': '' @ refused) (tr @ [Started]))
             in prefix t tr' \<and> (\<exists>why \<in> {''operate'', ''authority'', ''orders''}.
                  failures tr' = failures tr
                    @ (if refused_of (the_node w) running = None then [] else [''configuration'']) @ [why]
                  \<and> (why = ''operate'' \<longleftrightarrow> isl (operate_node (the_node w) t running)))))"
  using assms
proof (cases rule: serve_cases)
  case refused
  then show ?thesis using prepare_refused_by [OF refused(1)] run_refused [OF assms] by blast
qed simp

lemma prepare_running:
  "prepare w program configuration tr = (Some prep, tr') \<Longrightarrow>
     start_node (the_node w) tr configuration (the_linked w) = Inr (prep_running prep)"
  by (auto simp: prepare_def Let_def split: sum.splits prod.splits option.splits)

lemma begin_serving_ready:
  "begin_serving w program configuration purpose ready prep tr = (is_declared, publisher, tr') \<Longrightarrow>
     \<exists>t. tr' = ready t"
  by (auto simp: begin_serving_def Let_def case_prod_unfold)

lemma run_stop_recorded:
  assumes "serve w program configuration purpose ready stopping fuel tr = Some (Stopped, tr')"
  shows "\<exists>running begun heard within who t out ps.
     start_node (the_node w) tr configuration (the_linked w) = Inr running
     \<and> prefix (ready begun) heard \<and> told_to_stop (the_receiver w heard within) = Some who
     \<and> t = stopping (heard @ [Waited within, Unwatched])
     \<and> out = drain_node (the_node w) (t @ [Looked]) running
     \<and> prefix (t @ [Looked, Drained, Looked, Audited (Event ''stop'' Finished ps)]) tr'
     \<and> map_of ps ''node'' = Some (location_of (the_node w) running) \<and> map_of ps ''by'' = Some who
     \<and> map_of ps ''drained_ms'' =
         Some (decimal ((the_clock w (t @ [Looked, Drained]) - the_clock w t) div 1000000))
     \<and> map_of ps ''received'' = Some (decimal (out_received out))
     \<and> map_of ps ''routed'' = Some (decimal (out_routed out))
     \<and> map_of ps ''unroutable'' = Some (decimal (out_unroutable out))
     \<and> map_of ps ''refused'' = Some (decimal (out_refused out))
     \<and> map_of ps ''failed'' = Some (decimal (out_failed out))
     \<and> map_of ps ''sent'' = Some (decimal (out_sent out))
     \<and> map_of ps ''not_sent'' = Some (decimal (out_not_sent out))
     \<and> map_of ps ''own_share_ns'' = map_option decimal (own_share out)"
  using assms
proof (cases rule: serve_cases)
  case (stopped prep tr1 is_declared publisher tr2 who publisher' tr3)
  obtain begun where "tr2 = ready begun" using begin_serving_ready [OF stopped(3)] by blast
  moreover obtain heard within where heard: "tr3 = heard @ [Waited within]" "prefix tr2 heard"
      "told_to_stop (the_receiver w heard within) = Some who"
    using service.loop_heard [OF stopped(4) [unfolded served_def]] by blast
  moreover note drain_and_say_records [OF stopped(5) refl refl refl, unfolded heard(1)]
  moreover note prepare_running [OF stopped(2)]
  ultimately show ?thesis by (metis append.assoc append_Cons append_Nil)
qed simp

text \<open>Told over a channel, it is the first asking of the last wait that sends a stop.\<close>

lemma run_stopped_by_asking:
  assumes "serve (w\<lparr>the_receiver := channel asks happens\<rparr>) program configuration purpose ready stopping fuel tr
      = Some (Stopped, tr')"
    and "\<And>t. prefix t (stopping t)" "\<And>e. asks e \<noteq> Some Orders \<and> asks e \<noteq> Some Acted"
  obtains begun heard within who ps before e after where "prefix (ready begun) heard"
    "prefix (heard @ [Waited within, Unwatched]) tr'"
    "Audited (Event ''stop'' Finished ps) \<in> set tr'" "map_of ps ''by'' = Some who"
    "happens heard within = before @ Asked e # after" "asks e = Some (Stop who)"
    "\<forall>e'. Asked e' \<in> set before \<longrightarrow> asks e' = None"
proof -
  obtain begun heard within who ps where begun: "prefix (ready begun) heard"
    and told: "told_to_stop (channel asks happens heard within) = Some who"
    and rec: "prefix (stopping (heard @ [Waited within, Unwatched])
        @ [Looked, Drained, Looked, Audited (Event ''stop'' Finished ps)]) tr'" "map_of ps ''by'' = Some who"
    using run_stop_recorded [OF assms(1)] by auto
  have "prefix (stopping (heard @ [Waited within, Unwatched])) tr'" using rec(1) by (rule append_prefixD)
  with assms(2) have "prefix (heard @ [Waited within, Unwatched]) tr'" by (rule prefix_order.trans)
  moreover have "Audited (Event ''stop'' Finished ps) \<in> set tr'" using rec(1) by (auto simp: prefix_def)
  ultimately show ?thesis
    using told_by_channel [OF told assms(3)] that begun rec(2) by blast
qed

text \<open>
  C4: A run that stopped recorded its stop, right behind the drain: the node it started, by the location
  it served as; by whom it was stopped, which is the first stop of what it was told at its last wait, or
  its stop closing where every sender was gone; how long the drain took, in the clock's milliseconds from
  before it to after; and every count of what the drained node says it did, its own share with it.
\<close>

theorem stop_is_recorded:
  assumes "serve w program configuration purpose ready stopping fuel tr = Some (Stopped, tr')"
  shows "\<exists>running begun heard within who t out ps.
     start_node (the_node w) tr configuration (the_linked w) = Inr running
     \<and> prefix (ready begun) heard \<and> told_to_stop (the_receiver w heard within) = Some who
     \<and> t = stopping (heard @ [Waited within, Unwatched])
     \<and> out = drain_node (the_node w) (t @ [Looked]) running
     \<and> prefix (t @ [Looked, Drained, Looked, Audited (Event ''stop'' Finished ps)]) tr'
     \<and> map_of ps ''node'' = Some (location_of (the_node w) running) \<and> map_of ps ''by'' = Some who
     \<and> map_of ps ''drained_ms'' =
         Some (decimal ((the_clock w (t @ [Looked, Drained]) - the_clock w t) div 1000000))
     \<and> map_of ps ''received'' = Some (decimal (out_received out))
     \<and> map_of ps ''routed'' = Some (decimal (out_routed out))
     \<and> map_of ps ''unroutable'' = Some (decimal (out_unroutable out))
     \<and> map_of ps ''refused'' = Some (decimal (out_refused out))
     \<and> map_of ps ''failed'' = Some (decimal (out_failed out))
     \<and> map_of ps ''sent'' = Some (decimal (out_sent out))
     \<and> map_of ps ''not_sent'' = Some (decimal (out_not_sent out))
     \<and> map_of ps ''own_share_ns'' = map_option decimal (own_share out)"
  using assms by (rule run_stop_recorded)

section \<open>When a run ends, and what it waits for\<close>

lemma serve_ends_once_told:
  assumes "lawful_clock (the_clock w)"
    and "\<And>t within. n \<le> length (waits t) \<Longrightarrow> tells_stop (the_receiver w t within)"
    and enough: "n < fuel"
  shows "\<exists>tr'. serve w program configuration purpose ready stopping fuel tr
     = Some (case fst (prepare w program configuration tr) of None \<Rightarrow> Ended_refused | Some _ \<Rightarrow> Stopped, tr')"
proof (cases "prepare w program configuration tr")
  case (Pair out tr1)
  show ?thesis
  proof (cases out)
    case None
    then show ?thesis using Pair by (simp add: serve_def)
  next
    case (Some prep)
    obtain is_declared publisher tr2 where
      b: "begin_serving w program configuration purpose ready prep tr1 = (is_declared, publisher, tr2)"
      by (metis prod_cases3)
    have "\<exists>r. served fuel (publisher_pacing (the_observe w) (the_clock w) (the_sink w))
       (take_orders (the_orders w) program (the_sink w)) (the_receiver w) publisher tr2 = Some r"
      unfolding served_def
      by (rule service.loop_returns [where n = n, OF assms(2)]) (use enough in simp_all)
    then obtain who publisher' tr3 where
      "served fuel (publisher_pacing (the_observe w) (the_clock w) (the_sink w))
         (take_orders (the_orders w) program (the_sink w)) (the_receiver w) publisher tr2
       = Some (who, publisher', tr3)" by (metis prod_cases3)
    moreover obtain tr4 where
      "drain_and_say w program stopping (prep_running prep) is_declared who publisher' tr3 = Some tr4"
      using drain_and_say_returns [OF assms(1)] by blast
    ultimately show ?thesis using Pair Some b by (simp add: serve_def)
  qed
qed

lemma serve_returns:
  assumes "lawful_clock (the_clock w)"
    and "\<And>t within. n \<le> length (waits t) \<Longrightarrow> tells_stop (the_receiver w t within)" "n < fuel"
  shows "serve w program configuration purpose ready stopping fuel tr \<noteq> None"
  using serve_ends_once_told [OF assms] by (metis option.distinct(1))

text \<open>
  C3: A run ends: under every lawful clock, a service whose receiver tells a stop once it has waited
  \<open>n\<close> times returns, the same within any number of turns of its loop above \<open>n\<close>, stopped where it was
  prepared and refused where it was not.
\<close>

theorem serve_ends:
  assumes "lawful_clock (the_clock w)"
    and "\<And>t within. n \<le> length (waits t) \<Longrightarrow> tells_stop (the_receiver w t within)"
  shows "\<exists>tr'. \<forall>fuel>n. serve w program configuration purpose ready stopping fuel tr
     = Some (case fst (prepare w program configuration tr) of None \<Rightarrow> Ended_refused | Some _ \<Rightarrow> Stopped, tr')"
  using serve_ends_once_told [OF assms lessI] settlesD [OF serve_settles] by (metis Suc_leI)

lemma run_waits:
  assumes "\<And>t. waits (ready t) = waits t" "\<And>t. waits (stopping t) = waits t"
    and "serve w program configuration purpose ready stopping fuel tr = Some (e, tr')"
  shows "\<exists>ws. waits tr' = waits tr @ ws \<and> (e = Stopped \<longleftrightarrow> ws \<noteq> []) \<and> (\<forall>d \<in> set ws. d \<le> EVERY)"
  using assms(3)
proof (cases rule: serve_cases)
  case refused
  then show ?thesis using prepare_waits [of w program configuration tr] by simp
next
  case (stopped prep tr1 is_declared publisher tr2 who publisher' tr3)
  have "waits tr2 = waits tr"
    using prepare_waits [of w program configuration tr] stopped(2)
      begin_serving_waits [OF assms(1) stopped(3)] by simp
  moreover obtain ws where "waits tr3 = waits tr2 @ ws" "ws \<noteq> []" "\<forall>d \<in> set ws. d \<le> EVERY"
    using service.loop_effects [OF stopped(4) [unfolded served_def]] by blast
  moreover have "waits tr' = waits tr3"
    using assms(2) stopped(5) by (rule drain_and_say_waits)
  ultimately show ?thesis using stopped(1) by auto
qed

text \<open>
  C10: A run waits only to be told: a stopped run waited at least once, a refused one never, and no
  wait is longer than a publication's round.
\<close>

theorem serve_waits_within_a_round:
  assumes "\<And>t. waits (ready t) = waits t" "\<And>t. waits (stopping t) = waits t"
    and "serve w program configuration purpose ready stopping fuel tr = Some (e, tr')"
  shows "\<exists>ws. waits tr' = waits tr @ ws \<and> (e = Stopped \<longleftrightarrow> ws \<noteq> []) \<and> (\<forall>d \<in> set ws. d \<le> EVERY)"
  using assms by (rule run_waits)

section \<open>What one turn publishes\<close>

definition writes :: "trace \<Rightarrow> nat" where
  "writes tr = length (filter (\<lambda>e. case e of Wrote _ _ \<Rightarrow> True | _ \<Rightarrow> False) tr)"

lemma writes_append [simp]: "writes (xs @ ys) = writes xs + writes ys"
  by (simp add: writes_def)

lemma writes_simps [simp]:
  "writes [] = 0" "writes (Wrote path text # es) = Suc (writes es)"
  "writes (Posted text # es) = writes es" "writes (Looked # es) = writes es"
  "writes (Println text # es) = writes es" "writes (Eprintln text # es) = writes es"
  "writes (Audited entry # es) = writes es" "writes (Applied said # es) = writes es"
  "writes (Orders_taken # es) = writes es" "writes (Waited d # es) = writes es"
  by (simp_all add: writes_def)

lemma writes_fail [simp]: "writes (fail sink action problem tr) = writes tr"
  by (simp add: fail_def kept_def Let_def split: option.splits)

lemma writes_take_each: "writes (snd (take_each api program sink left n tr)) = writes tr"
  by (induction api program sink left n tr rule: take_each.induct) (simp_all split: sum.splits)

lemma writes_take_orders [simp]: "writes (snd (take_orders api program sink tr)) = writes tr"
  by (simp add: take_orders_def writes_take_each)

lemma writes_refused: "writes (snd (write_refused clk sink error p tr)) = writes tr"
  by (simp add: write_refused_def elapsed_since_def Let_def split: option.splits)

lemma writes_publish [simp]: "writes (snd (publish obs clk sink p tr)) = Suc (writes tr)"
  by (simp add: publish_def write_out_def Let_def case_prod_unfold writes_refused split: option.splits)

lemma writes_due [simp]: "writes (snd (due clk p tr)) = writes tr"
  by (simp add: due_def elapsed_since_def split: option.splits)

lemma writes_next_wait [simp]: "writes (snd (next_wait clk p tr)) = writes tr"
  by (simp add: next_wait_def elapsed_since_def split: option.splits)

text \<open>
  C9: Before each wait the service writes one publication or none: one exactly where an act was
  taken, an order it took was applied, or the publication is due.
\<close>

theorem turn_publishes:
  "writes (snd (snd (before_hearing (publisher_pacing obs clk sink) (take_orders api program sink)
       taking acted p tr))) =
   writes tr +
     (if acted \<or> (taking \<and> 0 < fst (take_orders api program sink tr))
         \<or> fst (due clk p (if taking then snd (take_orders api program sink tr) else tr))
      then 1 else 0)"
  by (simp add: before_hearing_def publisher_pacing_def Let_def case_prod_unfold)

section \<open>A publication refused between two rounds\<close>

text \<open>The trace of \<open>n\<close> turns that only ask whether a publication is due and wait.\<close>

definition spins :: "nat \<Rightarrow> trace" where
  "spins n = concat (replicate n [Looked, Waited AGAIN])"

lemma spins_simps [simp]: "spins 0 = []" "spins (Suc n) = Looked # Waited AGAIN # spins n"
  by (simp_all add: spins_def)

lemma writes_spins [simp]: "writes (spins n) = 0"
  by (induction n) simp_all

lemma one_spin:
  assumes "asked_again p" "written p = Some w" "clk tr < w + EVERY" "recv (tr @ [Looked]) AGAIN = Timeout"
  shows "served_loop (Suc fuel) (publisher_pacing obs clk sink) take_left recv False False p tr
     = served_loop fuel (publisher_pacing obs clk sink) take_left recv False False p
         (tr @ [Looked, Waited AGAIN])"
proof -
  have "fst (next_wait clk p t) = AGAIN \<and> snd (next_wait clk p t) = t" for t
    using assms(1) by (simp add: next_wait_def asked_again_def)
  then have next_is: "next_wait clk p t = (AGAIN, t)" for t by (metis prod.collapse)
  have "\<not> EVERY \<le> clk tr - w" using assms(3) by (simp add: EVERY_def)
  then have "due clk p tr = (False, tr @ [Looked])"
    using assms(2) by (simp add: due_def elapsed_since_def)
  then show ?thesis
    using assms(4) by (simp add: before_hearing_def publisher_pacing_def next_is hear_def)
qed

lemma many_spins:
  "asked_again p \<Longrightarrow> written p = Some w \<Longrightarrow> (\<And>j. j < n \<Longrightarrow> clk (tr @ spins j) < w + EVERY) \<Longrightarrow>
   (\<And>j. j < n \<Longrightarrow> recv (tr @ spins j @ [Looked]) AGAIN = Timeout) \<Longrightarrow>
     served_loop (n + fuel) (publisher_pacing obs clk sink) take_left recv False False p tr
   = served_loop fuel (publisher_pacing obs clk sink) take_left recv False False p (tr @ spins n)"
proof (induction n arbitrary: tr)
  case (Suc n)
  have "served_loop (Suc (n + fuel)) (publisher_pacing obs clk sink) take_left recv False False p tr
     = served_loop (n + fuel) (publisher_pacing obs clk sink) take_left recv False False p
         (tr @ [Looked, Waited AGAIN])"
    using Suc.prems(3,4) [of 0] by (intro one_spin [OF Suc.prems(1,2)]) simp_all
  also have "\<dots> = served_loop fuel (publisher_pacing obs clk sink) take_left recv False False p
      ((tr @ [Looked, Waited AGAIN]) @ spins n)"
    using Suc.prems(3,4) [of "Suc _"] by (intro Suc.IH [OF Suc.prems(1,2)]) simp_all
  finally show ?case by simp
qed simp

text \<open>
  C16: A publication refused between two rounds, after an act or an order, is not asked again a
  millisecond later: while nothing is told and the round since the last written publication has not
  passed, the service only wakes every \<open>AGAIN\<close>, asks whether a publication is due, and writes
  nothing.
\<close>

theorem refused_between_rounds_waits_for_the_round:
  assumes "refusing p = Some f" "\<not> audited f" "written p = Some w"
    and "\<forall>j<n. clk (tr @ spins j) < w + EVERY"
    and "\<forall>j<n. recv (tr @ spins j @ [Looked]) AGAIN = Timeout"
  shows "served_loop (n + fuel) (publisher_pacing obs clk sink) take_left recv False False p tr
     = served_loop fuel (publisher_pacing obs clk sink) take_left recv False False p (tr @ spins n)
    \<and> writes (tr @ spins n) = writes tr"
  proof
  have again: "asked_again p" using assms(1,2) by (simp add: asked_again_def)
  show "served_loop (n + fuel) (publisher_pacing obs clk sink) take_left recv False False p tr
     = served_loop fuel (publisher_pacing obs clk sink) take_left recv False False p (tr @ spins n)"
    by (rule many_spins [OF again assms(3)]) (use assms(4,5) in blast)+
qed simp

definition refused_publisher :: "string publisher" where
  "refused_publisher = plain_publisher
     \<lparr>written := Some 0, refusing := Some \<lparr>since = 0, audited = False\<rparr>\<rparr>"

lemma logical_clock_spins: "logical_clock (spins n) = n * AGAIN"
  by (induction n) (simp_all add: logical_clock_def)

theorem refused_between_rounds_waits_for_the_round_witness:
  "\<exists>p'. served_loop 201 (publisher_pacing (plain_observe None) logical_clock (\<lambda>_ _. None))
      (\<lambda>tr. (0, tr)) (\<lambda>tr within. if 200 \<le> length (waits tr) then Disconnected else Timeout)
      False False refused_publisher []
    = Some (''its stop closing'', p', spins 200 @ [Looked, Waited AGAIN])"
proof -
  let ?recv = "\<lambda>tr (within :: nat). if 200 \<le> length (waits tr) then Disconnected else Timeout"
  have waits: "length (waits (spins j)) = j" for j by (induction j) simp_all
  have p: "refusing refused_publisher = Some \<lparr>since = 0, audited = False\<rparr>"
      "written refused_publisher = Some 0"
    by (simp_all add: refused_publisher_def)
  have "served_loop (200 + 1) (publisher_pacing (plain_observe None) logical_clock (\<lambda>_ _. None))
      (\<lambda>tr. (0, tr)) ?recv False False refused_publisher []
    = served_loop 1 (publisher_pacing (plain_observe None) logical_clock (\<lambda>_ _. None))
      (\<lambda>tr. (0, tr)) ?recv False False refused_publisher ([] @ spins 200)
    \<and> writes ([] @ spins 200) = writes []"
    by (rule refused_between_rounds_waits_for_the_round [OF p(1) _ p(2)])
       (simp_all add: logical_clock_spins EVERY_def AGAIN_def waits)
  moreover have "\<exists>p'. served_loop 1 (publisher_pacing (plain_observe None) logical_clock (\<lambda>_ _. None))
      (\<lambda>tr. (0, tr)) ?recv False False refused_publisher (spins 200)
    = Some (''its stop closing'', p', spins 200 @ [Looked, Waited AGAIN])"
    using logical_clock_spins [of 200] waits [of 200]
    by (simp add: before_hearing_def publisher_pacing_def due_def next_wait_def elapsed_since_def p
        EVERY_def AGAIN_def hear_def)
  ultimately show ?thesis by simp
qed

section \<open>A run\<close>

text \<open>
  A service to witness with: a node that starts on every configuration but \<open>bad\<close>, whose receiver
  tells an order and an act once and then the console's stop, and whose publication is always written.
\<close>

definition plain_node :: "(unit, unit) node_api" where
  "plain_node =
     \<lparr>start_node = \<lambda>_ configuration _. if configuration = ''bad'' then Inl ''is refused'' else Inr (),
      refused_of = \<lambda>_. None, location_of = \<lambda>_. ''C/N'', data_of = \<lambda>_. path_of ''/data'',
      cluster_of = \<lambda>_. ''C'', node_of = \<lambda>_. ''N'', storage_said = \<lambda>_ _. ''local'',
      local_timeout = \<lambda>_. 1000000, operate_node = \<lambda>_ _. Inr [''127.0.0.1:9''],
      drain_node = \<lambda>_ _. \<lparr>out_received = 1, out_routed = 1, out_unroutable = 0, out_refused = 0,
        out_failed = 0, out_sent = 1, out_not_sent = 0, own_share = None\<rparr>,
      unsayable = \<lambda>_ _. None, declare_process = \<lambda>_ _. None, deadline_key = ''deadline'',
      purpose_word = \<lambda>_. ''runtime''\<rparr>"

definition plain_orders :: "string orders_api" where
  "plain_orders =
     \<lparr>order_place = \<lambda>place _. Inr place, make_folder = \<lambda>_ _. None, watch_folder = \<lambda>_ _. None,
      orders_left = \<lambda>_. [Inr ''start Sales''], apply_order = \<lambda>_ said. Inr said\<rparr>"

definition plain_world :: "(unit, unit, string, string, unit, unit) service_world" where
  "plain_world =
     \<lparr>the_node = plain_node,
      the_linked = linked (\<lambda>_. False) Linux () (\<lambda>_ _. ()),
      the_observe = plain_observe None, the_orders = plain_orders,
      the_read = \<lambda>_ _. Inr
        \<lparr>doc_node = ''N'', doc_data_directory = \<lambda>p. p, doc_roles = None, doc_operate = None,
         doc_storage_listen = None, doc_provision = \<lambda>_. None, doc_receive = [],
         doc_applications = []\<rparr>,
      the_ca = None, the_clock = logical_clock, the_sink = \<lambda>_ _. None,
      the_receiver = \<lambda>tr _. if waits tr = [] then Received Orders [Acted]
                            else Received (Stop ''the console'') []\<rparr>"

definition plain_ready :: "trace \<Rightarrow> trace" where
  "plain_ready tr = tr @ [Ready]"

definition plain_stopping :: "trace \<Rightarrow> trace" where
  "plain_stopping tr = tr @ [Stopping]"

lemma plain_told: "1 \<le> length (waits t) \<Longrightarrow> tells_stop (the_receiver plain_world t within)"
  by (cases "waits t") (simp_all add: plain_world_def tells_stop_def)

lemma plain_clock: "lawful_clock (the_clock plain_world)"
  by (simp add: plain_world_def logical_clock_lawful)

lemma plain_prepares: "fst (prepare plain_world ''xmip'' ''ok'' tr) \<noteq> None"
  by (simp add: prepare_def plain_world_def plain_node_def asked_def operated_def authorized_def
      serve_authority_def serve_linked_def serve_unlinked_def listens_def watch_orders_def
      plain_orders_def Let_def split: option.splits)

lemma plain_run:
  "\<exists>tr'. serve plain_world ''xmip'' ''ok'' Runtime plain_ready plain_stopping 2 [] = Some (Stopped, tr')"
proof -
  have "\<exists>tr'. serve plain_world ''xmip'' ''ok'' Runtime plain_ready plain_stopping (Suc 1) []
      = Some (case fst (prepare plain_world ''xmip'' ''ok'' []) of
                None \<Rightarrow> Ended_refused | Some _ \<Rightarrow> Stopped, tr')"
    by (rule serve_ends_once_told [where n = 1, OF plain_clock plain_told]) simp_all
  then show ?thesis using plain_prepares [of "[]"] by (auto simp: numeral_2_eq_2 split: option.splits)
qed

lemma plain_refused:
  "\<exists>tr'. serve plain_world ''xmip'' ''bad'' Runtime plain_ready plain_stopping 2 []
     = Some (Ended_refused, tr')"
  by (simp add: serve_def prepare_def plain_world_def plain_node_def)

lemma plain_marks:
  "\<exists>r \<in> {[Ready]}. milestones (plain_ready t) = milestones t @ r"
  "\<exists>s \<in> {[Stopping]}. milestones (plain_stopping t) = milestones t @ s"
  "waits (plain_ready t) = waits t" "waits (plain_stopping t) = waits t"
  by (simp_all add: plain_ready_def plain_stopping_def)


text \<open>A node that starts on an earlier configuration and whose operate listeners do not answer.\<close>

definition deaf_world :: "(unit, unit, string, string, unit, unit) service_world" where
  "deaf_world = plain_world\<lparr>the_node := plain_node
     \<lparr>refused_of := \<lambda>_. Some ''is no TOML'', operate_node := \<lambda>_ _. Inl ''is in use''\<rparr>\<rparr>"

theorem refused_run_is_audited_witness:
  "\<exists>tr'. serve deaf_world ''xmip'' ''ok'' Runtime plain_ready plain_stopping 2 []
     = Some (Ended_refused, tr') \<and> waits tr' = [] \<and> failures tr' = [''configuration'', ''operate'']"
proof -
  obtain tr' where run: "serve deaf_world ''xmip'' ''ok'' Runtime plain_ready plain_stopping 2 []
      = Some (Ended_refused, tr')"
    by (simp add: serve_def prepare_def asked_def operated_def deaf_world_def plain_world_def plain_node_def Let_def)
  have "start_node (the_node deaf_world) tr ''ok'' (the_linked deaf_world) = Inr ()"
      "refused_of (the_node deaf_world) () = Some ''is no TOML''"
      "isl (operate_node (the_node deaf_world) t ())" for tr t
    by (simp_all add: deaf_world_def plain_node_def)
  with refused_run_is_audited [OF run] run show ?thesis by (auto simp: Let_def)
qed

theorem stop_is_recorded_witness:
  "\<exists>tr' ps. serve plain_world ''xmip'' ''ok'' Runtime plain_ready plain_stopping 2 [] = Some (Stopped, tr')
      \<and> Audited (Event ''stop'' Finished ps) \<in> set tr' \<and> map_of ps ''node'' = Some ''C/N''
      \<and> map_of ps ''by'' = Some ''the console'' \<and> map_of ps ''sent'' = Some (decimal 1)"
proof -
  obtain tr' where run: "serve plain_world ''xmip'' ''ok'' Runtime plain_ready plain_stopping 2 []
      = Some (Stopped, tr')" using plain_run by blast
  have node: "location_of (the_node plain_world) r = ''C/N''" "out_sent (drain_node (the_node plain_world) t r) = 1"
      "told_to_stop (the_receiver plain_world h within) = Some who \<Longrightarrow> who = ''the console''" for r t h within who
    by (auto simp: plain_world_def plain_node_def told_to_stop_def split: if_splits)
  from stop_is_recorded [OF run] obtain running heard within who t out ps where
    stop: "told_to_stop (the_receiver plain_world heard within) = Some who"
      "out = drain_node (the_node plain_world) (t @ [Looked]) running"
      "prefix (t @ [Looked, Drained, Looked, Audited (Event ''stop'' Finished ps)]) tr'"
      "map_of ps ''node'' = Some (location_of (the_node plain_world) running)" "map_of ps ''by'' = Some who"
      "map_of ps ''sent'' = Some (decimal (out_sent out))" by blast
  have "Audited (Event ''stop'' Finished ps) \<in> set tr'" using stop(3) by (auto simp: prefix_def)
  with run stop(4-6) show ?thesis unfolding stop(2) node(1,2) node(3) [OF stop(1)] by blast
qed

theorem serve_ends_witness:
  "\<exists>e tr'. serve plain_world ''xmip'' ''ok'' Runtime plain_ready plain_stopping (Suc 1) [] = Some (e, tr')"
  using serve_ends [where n = 1, OF plain_clock plain_told] by (metis lessI One_nat_def)

theorem serve_waits_within_a_round_witness:
  "\<exists>tr'. serve plain_world ''xmip'' ''ok'' Runtime plain_ready plain_stopping 2 [] = Some (Stopped, tr')
     \<and> waits tr' \<noteq> [] \<and> (\<forall>d \<in> set (waits tr'). d \<le> EVERY)"
proof -
  obtain tr' where run: "serve plain_world ''xmip'' ''ok'' Runtime plain_ready plain_stopping 2 []
      = Some (Stopped, tr')" using plain_run by blast
  from serve_waits_within_a_round [OF plain_marks(3,4) run] run show ?thesis by auto
qed

end
