(* ===== verification/Mailbox.thy ===== *)
theory Mailbox
  imports Lifecycle
begin

text \<open>
  The channel the service is told by, \<open>std::sync::mpsc\<close>: the other threads (the signal handler, the
  control handler, the watch, the board, the reader of the input) send, and each \<open>hear\<close> takes, in the
  order they were sent, the messages that came since the last.  What comes is any schedule, one burst
  for each wait.  Against it the whole of serving is a function: the lemmas show that the service
  answers the bursts one by one, up to the first stop in them.
\<close>

section \<open>The channel\<close>

text \<open>What was sent by the end of the \<open>n\<close>-th wait and not taken before, in the order it was sent.\<close>

type_synonym arrivals = "nat \<Rightarrow> told list"

text \<open>
  The receiver's side: \<open>recv_timeout\<close> answers the first message, behind it those \<open>try_iter\<close> takes, or
  that none came.  A sender is always left, the run's own, so it never answers that none is.
\<close>

definition mailbox :: "arrivals \<Rightarrow> receiver" where
  "mailbox arrivals tr within =
     (case arrivals (length (waits tr)) of
        [] \<Rightarrow> Timeout
      | first # waiting \<Rightarrow> Received first waiting)"

text \<open>A receiver that delivers a schedule: what is heard is the whole of the next burst.\<close>

locale delivering =
  fixes recv :: receiver and arrivals :: arrivals
  assumes heard: "fst (hear recv within tr) =
     (case stops (arrivals (length (waits tr))) of
        by # _ \<Rightarrow> Inl by
      | [] \<Rightarrow> Inr (Orders \<in> set (arrivals (length (waits tr))), Acted \<in> set (arrivals (length (waits tr)))))"
begin

lemma heard_nothing:
  "stops (arrivals (length (waits tr))) = [] \<Longrightarrow>
     hear recv within tr =
       (Inr (Orders \<in> set (arrivals (length (waits tr))), Acted \<in> set (arrivals (length (waits tr)))),
        tr @ [Waited within])"
  using heard [of within tr] by (simp add: prod_eq_iff)

lemma heard_stop:
  "stops (arrivals (length (waits tr))) = who # rest \<Longrightarrow> hear recv within tr = (Inl who, tr @ [Waited within])"
  using heard [of within tr] by (simp add: prod_eq_iff)

end

interpretation mpsc: delivering "mailbox arrivals" arrivals for arrivals
  by unfold_locales
    (auto simp: mailbox_def hear_def hear_all_eq split: list.splits)

section \<open>What one turn does\<close>

definition takings :: "trace \<Rightarrow> nat" where
  "takings tr = length (filter (\<lambda>e. e = Orders_taken) tr)"

lemma takings_append [simp]: "takings (xs @ ys) = takings xs + takings ys"
  by (simp add: takings_def)

lemma takings_simps [simp]:
  "takings [] = 0" "takings (Orders_taken # es) = Suc (takings es)"
  "e \<noteq> Orders_taken \<Longrightarrow> takings (e # es) = takings es"
  by (simp_all add: takings_def)

lemma takings_fail [simp]: "takings (fail sink action problem tr) = takings tr"
  by (simp add: fail_def kept_def Let_def split: option.splits)

lemma takings_other: "adds (\<lambda>e. e \<noteq> Orders_taken) tr tr' \<Longrightarrow> takings tr' = takings tr"
  by (auto simp: adds_def takings_def list_all_iff filter_empty_conv)

definition no_write :: "effect \<Rightarrow> bool" where
  "no_write e = (case e of Wrote _ _ \<Rightarrow> False | _ \<Rightarrow> True)"

lemma takings_before_writing:
  assumes "writes es = 0" "takings rest = 0"
  shows "takings (takeWhile no_write (es @ rest)) = takings es"
proof -
  have "no_write e" if "e \<in> set es" for e
    using assms(1) that by (auto simp: writes_def no_write_def filter_empty_conv split: effect.splits)
  then have "takeWhile no_write (es @ rest) = es @ takeWhile no_write rest" by (rule takeWhile_append2)
  moreover have "takings (takeWhile no_write rest) = 0"
    using assms(2) by (auto simp: takings_def filter_empty_conv dest: set_takeWhileD)
  ultimately show ?thesis by simp
qed

text \<open>
  A turn of the loop, from one wait to the next, where it was told whether to take orders and whether
  an act was taken: it ends in a wait of at most a round; the orders are taken once or not at all, as
  it was told, and before anything is published; and it publishes at most once, and exactly once where
  an act was taken or an order applied.
\<close>

definition turn_of :: "bool \<Rightarrow> bool \<Rightarrow> trace \<Rightarrow> bool" where
  "turn_of taking acted t \<longleftrightarrow> t \<noteq> [] \<and>
     (case last t of
        Waited within \<Rightarrow>
          (let es = butlast t in
             within \<le> EVERY \<and> waits es = []
             \<and> takings es = (if taking then 1 else 0)
             \<and> takings (takeWhile no_write es) = takings es
             \<and> writes es \<le> 1 \<and> (acted \<or> 0 < applied es \<longrightarrow> writes es = 1))
      | _ \<Rightarrow> False)"

lemma turn_of_waited:
  "turn_of taking acted (es @ [Waited within]) \<longleftrightarrow>
     within \<le> EVERY \<and> waits es = [] \<and> takings es = (if taking then 1 else 0)
     \<and> takings (takeWhile no_write es) = takings es
     \<and> writes es \<le> 1 \<and> (acted \<or> 0 < applied es \<longrightarrow> writes es = 1)"
  by (simp add: turn_of_def)

text \<open>The turns of a loop that hears the bursts, the first as it is told and each next as it heard.\<close>

fun answers :: "bool \<Rightarrow> bool \<Rightarrow> told list list \<Rightarrow> trace list \<Rightarrow> bool" where
  "answers taking acted [] ts \<longleftrightarrow> ts = []"
| "answers taking acted (burst # bursts) (t # ts) \<longleftrightarrow>
     turn_of taking acted t \<and> answers (Orders \<in> set burst) (Acted \<in> set burst) bursts ts"
| "answers taking acted (burst # bursts) [] \<longleftrightarrow> False"

text \<open>What the two operations that account for anything add.\<close>

lemma takings_take_each:
  "\<exists>es. snd (take_each api program sink left n tr) = tr @ es \<and> takings es = 0 \<and> writes es = 0"
proof (induction left arbitrary: n tr)
  case (Cons taken rest)
  show ?case
  proof (cases "and_then (map_err (\<lambda>problem. ''an order no node can take: '' @ problem) taken)
      (apply_order api tr)")
    case (Inl problem)
    define t where "t = fail sink ''order'' (program @ '': '' @ problem) tr"
    have step: "take_each api program sink (taken # rest) n tr = take_each api program sink rest n t"
      by (simp only: take_each.simps Inl sum.case t_def)
    obtain es where "t = tr @ es" "takings es = 0" "writes es = 0"
      using fail_appends takings_fail writes_fail unfolding t_def
      by (metis add_cancel_right_right takings_append writes_append)
    moreover obtain es' where "snd (take_each api program sink rest n t) = t @ es'"
        "takings es' = 0" "writes es' = 0"
      using Cons.IH by blast
    ultimately show ?thesis unfolding step by simp
  next
    case (Inr said)
    obtain es where "snd (take_each api program sink rest (Suc n)
          (tr @ [Applied said, Println (program @ '': '' @ said)]))
        = (tr @ [Applied said, Println (program @ '': '' @ said)]) @ es" "takings es = 0" "writes es = 0"
      using Cons.IH by blast
    moreover have "take_each api program sink (taken # rest) n tr = take_each api program sink rest
        (Suc n) (tr @ [Applied said, Println (program @ '': '' @ said)])"
      by (simp only: take_each.simps Inr sum.case)
    ultimately show ?thesis by simp
  qed
qed simp

lemma take_orders_accounts:
  "\<exists>es. snd (take_orders api program sink tr) = tr @ es \<and> takings es = 1 \<and> writes es = 0
     \<and> applied es = fst (take_orders api program sink tr)"
proof -
  let ?taken = "take_each api program sink (orders_left api tr) 0 (tr @ [Orders_taken])"
  obtain es where es: "snd ?taken = (tr @ [Orders_taken]) @ es" "takings es = 0" "writes es = 0"
    using takings_take_each by blast
  have "applied (snd ?taken) = applied (tr @ [Orders_taken]) + fst ?taken"
    using take_each_accounts [of api program sink "orders_left api tr" 0 "tr @ [Orders_taken]"
        "fst ?taken" "snd ?taken"] by simp
  with es show ?thesis
    by (intro exI [of _ "Orders_taken # es"]) (simp add: take_orders_def)
qed

lemma publish_accounts:
  "\<exists>es. snd (publish obs clk sink p tr) = tr @ es \<and> takings es = 0 \<and> writes es = 1 \<and> applied es = 0"
proof -
  obtain es where es: "snd (publish obs clk sink p tr) = tr @ es"
    using publish_prefix by (metis prefixE)
  have "writes es = 1" using writes_publish [of obs clk sink p tr] by (simp add: es)
  moreover have "adds (\<lambda>e. e \<noteq> Orders_taken \<and> \<not> (\<exists>said. e = Applied said)) tr (snd (publish obs clk sink p tr))"
    by (rule publish_adds) simp_all
  then have "list_all (\<lambda>e. e \<noteq> Orders_taken \<and> \<not> (\<exists>said. e = Applied said)) es"
    by (simp add: es)
  then have "takings es = 0" "applied es = 0"
    by (auto simp: takings_def applied_def list_all_iff filter_empty_conv split: effect.splits)
  ultimately show ?thesis using es by blast
qed

text \<open>
  What a paced service does in its steps, as far as a turn is accounted for: the orders are taken and
  published of by nothing but \<open>take_left\<close> and \<open>publish_now\<close>.
\<close>

fun accounted :: "effect \<Rightarrow> bool" where
  "accounted Orders_taken = True"
| "accounted (Applied _) = True"
| "accounted (Wrote _ _) = True"
| "accounted _ = False"

abbreviation unaccounted :: "effect \<Rightarrow> bool" where
  "unaccounted e \<equiv> quiet e \<and> \<not> accounted e"

locale accountable_service = paced_service +
  assumes take_once: "\<exists>es. snd (take_left tr) = tr @ es \<and> takings es = 1 \<and> writes es = 0
      \<and> applied es = fst (take_left tr)"
    and due_takes_nothing: "adds unaccounted tr (snd (is_due ops p tr))"
    and wait_takes_nothing: "adds unaccounted tr (snd (wait_for ops p tr))"
    and publish_once: "\<exists>es. snd (publish_now ops p tr) = tr @ es \<and> takings es = 0 \<and> writes es = 1
      \<and> applied es = 0"
begin

lemma nothing_accounted:
  "adds unaccounted tr tr' \<Longrightarrow>
     \<exists>es. tr' = tr @ es \<and> waits es = [] \<and> takings es = 0 \<and> writes es = 0 \<and> applied es = 0"
proof -
  have none: "list_all unaccounted es \<Longrightarrow> waits es = [] \<and> takings es = 0 \<and> writes es = 0 \<and> applied es = 0"
    for es
  proof (induction es)
    case (Cons e es)
    then show ?case by (cases e) (simp_all add: quiet_def writes_def applied_def)
  qed simp
  assume "adds unaccounted tr tr'"
  then show ?thesis using none by (auto simp: adds_def)
qed

lemma turn_shape:
  assumes "before_hearing ops take_left taking acted p tr = (p', within, tr')"
  shows "\<exists>es. tr' = tr @ es \<and> turn_of taking acted (es @ [Waited within])"
proof -
  define t1 where "t1 = (if taking then take_left tr else (0, tr))"
  define t2 where "t2 = (if 0 < fst t1 \<or> acted then (True, snd t1) else is_due ops p (snd t1))"
  define t3 where "t3 = (if fst t2 then publish_now ops p (snd t2) else (p, snd t2))"
  define t4 where "t4 = wait_for ops (fst t3) (snd t3)"
  have all: "tr' = snd t4" "within \<le> EVERY" "waits tr' = waits tr"
    using assms before_hearing_bound [of taking acted p tr] before_hearing_quiet [of tr taking acted p]
    by (auto simp: before_hearing_def t1_def t2_def t3_def t4_def Let_def case_prod_unfold
        dest: quiet_waits)
  obtain e1 where e1: "snd t1 = tr @ e1" "takings e1 = (if taking then 1 else 0)" "writes e1 = 0"
      "applied e1 = fst t1"
    using take_once [of tr] by (cases taking) (auto simp: t1_def)
  obtain e2 where e2: "snd t2 = snd t1 @ e2" "takings e2 = 0" "writes e2 = 0" "applied e2 = 0"
    using nothing_accounted [OF due_takes_nothing [of "snd t1" p]]
    by (cases "0 < fst t1 \<or> acted") (auto simp: t2_def)
  obtain e3 where e3: "snd t3 = snd t2 @ e3" "takings e3 = 0" "writes e3 = (if fst t2 then 1 else 0)"
      "applied e3 = 0"
    using publish_once [of p "snd t2"] by (cases "fst t2") (auto simp: t3_def)
  obtain e4 where e4: "snd t4 = snd t3 @ e4" "takings e4 = 0" "writes e4 = 0" "applied e4 = 0"
    using nothing_accounted [OF wait_takes_nothing [of "snd t3" "fst t3"]] by (auto simp: t4_def)
  let ?es = "e1 @ e2 @ e3 @ e4"
  have es: "tr' = tr @ ?es" by (simp add: all(1) e1(1) e2(1) e3(1) e4(1))
  then have "waits ?es = []" using all(3) by simp
  moreover have "0 < applied ?es \<or> acted \<longrightarrow> writes ?es = 1"
    using e1 e2 e3 e4 by (auto simp: t2_def)
  moreover have "takings (takeWhile no_write ?es) = takings ?es"
    using e1(2,3) e2(2) e3(2) e4(2) by (simp add: takings_before_writing)
  moreover have "takings ?es = (if taking then 1 else 0)" "writes ?es \<le> 1"
    using e1(2,3) e2(2,3) e3(2,3) e4(2,3) by simp_all
  ultimately have "turn_of taking acted (?es @ [Waited within])"
    unfolding turn_of_waited using all(2) by blast
  with es show ?thesis by blast
qed

end

interpretation accounted: accountable_service "publisher_pacing obs clk sink" asked_again
  "take_orders api program sink" for obs clk sink api program
proof unfold_locales
  fix tr :: trace and p :: "'a publisher"
  show "\<exists>es. snd (take_orders api program sink tr) = tr @ es \<and> takings es = 1 \<and> writes es = 0
      \<and> applied es = fst (take_orders api program sink tr)"
    by (rule take_orders_accounts)
  show "adds unaccounted tr (snd (is_due (publisher_pacing obs clk sink) p tr))"
    by (simp add: publisher_pacing_def due_def elapsed_since_def split: option.splits)
  show "adds unaccounted tr (snd (wait_for (publisher_pacing obs clk sink) p tr))"
    by (simp add: publisher_pacing_def next_wait_def elapsed_since_def split: option.splits)
  show "\<exists>es. snd (publish_now (publisher_pacing obs clk sink) p tr) = tr @ es \<and> takings es = 0
      \<and> writes es = 1 \<and> applied es = 0"
    unfolding publisher_pacing_def pacing.simps by (rule publish_accounts)
qed

section \<open>The whole of serving\<close>

text \<open>
  Where the first stop comes in the \<open>k\<close>-th burst from now, the loop answers the bursts before it and
  then returns who stopped it, with any fuel above \<open>k\<close>.
\<close>

locale answering_service =
  accountable_service ops retrying take_left + delivering recv arrivals
  for ops :: "'p pacing" and retrying and take_left and recv and arrivals
begin

lemma loop_answers:
  assumes "\<And>j. j < k \<Longrightarrow> stops (arrivals (length (waits tr) + j)) = []"
    and "stops (arrivals (length (waits tr) + k)) = who # rest" "k < fuel"
  shows "\<exists>p' ts. served_loop fuel ops take_left recv taking acted p tr = Some (who, p', tr @ concat ts)
     \<and> answers taking acted (map (\<lambda>j. arrivals (length (waits tr) + j)) [0..<Suc k]) ts
     \<and> length (waits (concat ts)) = Suc k"
  using assms
proof (induction k arbitrary: fuel taking acted p tr)
  case 0
  obtain n where n: "fuel = Suc n" using "0.prems"(3) by (cases fuel) auto
  obtain p1 within tr1 where b: "before_hearing ops take_left taking acted p tr = (p1, within, tr1)"
    by (metis prod_cases3)
  obtain es where es: "tr1 = tr @ es" "turn_of taking acted (es @ [Waited within])"
    using turn_shape [OF b] by blast
  have "waits es = []" using es(2) by (simp add: turn_of_waited)
  then have "hear recv within tr1 = (Inl who, tr1 @ [Waited within])"
    using "0.prems"(2) by (intro heard_stop) (simp add: es(1))
  then show ?case
    using b es \<open>waits es = []\<close> by (intro exI [of _ p1] exI [of _ "[es @ [Waited within]]"]) (simp add: n)
next
  case (Suc k)
  obtain n where n: "fuel = Suc n" "k < n" using Suc.prems(3) by (cases fuel) auto
  obtain p1 within tr1 where b: "before_hearing ops take_left taking acted p tr = (p1, within, tr1)"
    by (metis prod_cases3)
  obtain es where es: "tr1 = tr @ es" "turn_of taking acted (es @ [Waited within])"
    using turn_shape [OF b] by blast
  let ?burst = "arrivals (length (waits tr))" and ?tr2 = "tr1 @ [Waited within]"
  have w: "waits es = []" using es(2) by (simp add: turn_of_waited)
  have "stops ?burst = []" using Suc.prems(1) [of 0] by simp
  then have heard1: "hear recv within tr1 = (Inr (Orders \<in> set ?burst, Acted \<in> set ?burst), ?tr2)"
    using heard_nothing [of tr1 within] by (simp add: es(1) w)
  have "stops (arrivals (length (waits ?tr2) + j)) = []" if "j < k" for j
    using Suc.prems(1) [of "Suc j"] that by (simp add: es(1) w)
  moreover have "stops (arrivals (length (waits ?tr2) + k)) = who # rest"
    using Suc.prems(2) by (simp add: es(1) w)
  ultimately obtain p' ts where
    "served_loop n ops take_left recv (Orders \<in> set ?burst) (Acted \<in> set ?burst) p1 ?tr2
       = Some (who, p', ?tr2 @ concat ts)"
    "answers (Orders \<in> set ?burst) (Acted \<in> set ?burst)
       (map (\<lambda>j. arrivals (length (waits ?tr2) + j)) [0..<Suc k]) ts"
    "length (waits (concat ts)) = Suc k"
    using Suc.IH n(2) by blast
  moreover have "map (\<lambda>j. arrivals (length (waits tr) + j)) [0..<Suc (Suc k)]
      = ?burst # map (\<lambda>j. arrivals (length (waits ?tr2) + j)) [0..<Suc k]"
    by (simp add: es(1) w map_upt_Suc del: upt_Suc)
  ultimately show ?case
    using b es heard1 w
    by (intro exI [of _ p'] exI [of _ "(es @ [Waited within]) # ts"]) (simp add: n(1) del: upt_Suc)
qed

end

interpretation fed: answering_service "publisher_pacing obs clk sink" asked_again
  "take_orders api program sink" "mailbox arrivals" arrivals for obs clk sink api program arrivals ..

lemma serve_answers:
  assumes "lawful_clock (the_clock w)" "the_receiver w = mailbox arrivals"
    and "\<And>t. waits (ready t) = waits t" "\<And>t. prefix t (stopping t)"
    and "prepare w program configuration tr = (Some prep, tr1)"
    and "begin_serving w program configuration purpose ready prep tr1 = (is_declared, publisher, tr2)"
    and "\<And>j. j < k \<Longrightarrow> stops (arrivals (length (waits tr) + j)) = []"
    and "stops (arrivals (length (waits tr) + k)) = who # rest" "k < fuel"
  shows "\<exists>ts tr' ps.
      serve w program configuration purpose ready stopping fuel tr = Some (Stopped, tr')
    \<and> answers True False (map (\<lambda>j. arrivals (length (waits tr) + j)) [0..<Suc k]) ts
    \<and> prefix (tr2 @ concat ts) tr'
    \<and> Audited (Event ''stop'' Finished ps) \<in> set tr' \<and> map_of ps ''by'' = Some who"
proof -
  have w: "waits tr2 = waits tr"
    using begin_serving_waits [OF assms(3,6)] prepare_waits [of w program configuration tr] assms(5)
    by simp
  obtain publisher' ts where
    loop: "served fuel (publisher_pacing (the_observe w) (the_clock w) (the_sink w))
       (take_orders (the_orders w) program (the_sink w)) (the_receiver w) publisher tr2
     = Some (who, publisher', tr2 @ concat ts)"
    and ts: "answers True False (map (\<lambda>j. arrivals (length (waits tr) + j)) [0..<Suc k]) ts"
    using fed.loop_answers [of k arrivals tr2 who rest fuel] assms(7-9)
    unfolding served_def assms(2) w by blast
  obtain tr' where end_is: "drain_and_say w program stopping (prep_running prep) is_declared who
      publisher' (tr2 @ concat ts) = Some tr'"
    using drain_and_say_returns [OF assms(1)] by blast
  have "serve w program configuration purpose ready stopping fuel tr = Some (Stopped, tr')"
    using assms(5,6) loop end_is by (simp add: serve_def)
  moreover have "prefix (tr2 @ concat ts) tr'"
    using assms(4) end_is by (rule drain_and_say_prefix)
  ultimately show ?thesis using ts drain_and_say_audits [OF end_is] by blast
qed

text \<open>
  C17: Served from its mailbox, a service answers every burst it is told, in order, up to the first
  that holds a stop: one turn for each, which takes the orders left exactly where one was told (and
  once before the first), before it publishes, publishes exactly once where an act was told or an
  order applied, and waits no longer than a round.  Then it stops and records the first stop of that
  burst, whatever else the burst held.  One turn more than there are bursts before it is fuel enough.
\<close>

theorem every_burst_is_answered:
  assumes "lawful_clock (the_clock w)" "the_receiver w = mailbox arrivals"
    and "\<And>t. waits (ready t) = waits t" "\<And>t. prefix t (stopping t)"
    and "prepare w program configuration tr = (Some prep, tr1)"
    and "begin_serving w program configuration purpose ready prep tr1 = (is_declared, publisher, tr2)"
    and "\<And>j. j < k \<Longrightarrow> stops (arrivals (length (waits tr) + j)) = []"
    and "stops (arrivals (length (waits tr) + k)) = who # rest" "k < fuel"
  shows "\<exists>ts tr' ps.
      serve w program configuration purpose ready stopping fuel tr = Some (Stopped, tr')
    \<and> answers True False (map (\<lambda>j. arrivals (length (waits tr) + j)) [0..<Suc k]) ts
    \<and> prefix (tr2 @ concat ts) tr'
    \<and> Audited (Event ''stop'' Finished ps) \<in> set tr' \<and> map_of ps ''by'' = Some who"
  using assms by (rule serve_answers)

text \<open>An act, then nothing, then an order in one burst with two stops.\<close>

definition some_arrivals :: arrivals where
  "some_arrivals n =
     (if n = 0 then [Acted] else if n = 2 then [Orders, Stop ''SIGTERM'', Acted, Stop ''the console''] else [])"

definition mailed_world :: "(unit, unit, string, string, unit, unit) service_world" where
  "mailed_world = plain_world\<lparr>the_receiver := mailbox some_arrivals\<rparr>"

theorem every_burst_is_answered_witness:
  "\<exists>t1 t2 t3 tr0 tr' ps.
      serve mailed_world ''xmip'' ''ok'' Runtime plain_ready plain_stopping 3 [] = Some (Stopped, tr')
    \<and> turn_of True False t1 \<and> turn_of False True t2 \<and> turn_of False False t3
    \<and> prefix (tr0 @ t1 @ t2 @ t3) tr'
    \<and> Audited (Event ''stop'' Finished ps) \<in> set tr' \<and> map_of ps ''by'' = Some ''SIGTERM''"
proof -
  have world: "lawful_clock (the_clock mailed_world)" "the_receiver mailed_world = mailbox some_arrivals"
    using plain_clock by (simp_all add: mailed_world_def)
  have "fst (prepare mailed_world ''xmip'' ''ok'' []) \<noteq> None"
    using plain_prepares by (simp add: mailed_world_def)
  then obtain prep tr1 where p: "prepare mailed_world ''xmip'' ''ok'' [] = (Some prep, tr1)"
    by (cases "prepare mailed_world ''xmip'' ''ok'' []") auto
  obtain is_declared publisher tr2 where b: "begin_serving mailed_world ''xmip'' ''ok'' Runtime
      plain_ready prep tr1 = (is_declared, publisher, tr2)" by (metis prod_cases3)
  have bursts: "stops (some_arrivals (length (waits []) + j)) = []" if "j < 2" for j
    using that by (cases j) (simp_all add: some_arrivals_def)
  have last: "stops (some_arrivals (length (waits []) + 2)) = ''SIGTERM'' # [''the console'']"
    by (simp add: some_arrivals_def)
  have heard: "map (\<lambda>j. some_arrivals (length (waits []) + j)) [0..<Suc 2]
      = [[Acted], [], [Orders, Stop ''SIGTERM'', Acted, Stop ''the console'']]"
    by (simp add: some_arrivals_def upt_rec)
  have "prefix t (plain_stopping t)" for t by (simp add: plain_stopping_def)
  from every_burst_is_answered [OF world plain_marks(3) this p b bursts last, of 3]
  obtain ts tr' ps where
    run: "serve mailed_world ''xmip'' ''ok'' Runtime plain_ready plain_stopping 3 [] = Some (Stopped, tr')"
      "prefix (tr2 @ concat ts) tr'" "Audited (Event ''stop'' Finished ps) \<in> set tr'"
      "map_of ps ''by'' = Some ''SIGTERM''"
    and ts: "answers True False [[Acted], [], [Orders, Stop ''SIGTERM'', Acted, Stop ''the console'']] ts"
    unfolding heard by auto
  obtain t1 t2 t3 where "ts = [t1, t2, t3]" "turn_of True False t1" "turn_of False True t2"
      "turn_of False False t3"
    using ts by (auto elim!: answers.elims)
  with run show ?thesis by auto
qed

end
