(* ===== verification/Publisher_States.thy ===== *)
theory Publisher_States
  imports Lifecycle
begin

text \<open>
  The states a publisher reaches: from a new one, by publishing, by publishing that the node stopped,
  and by whatever else the service does meanwhile, as an inductive relation; the invariant every state
  keeps; and that the publisher of every run of \<open>serve\<close> is in such a state, so that a run that stopped
  published that it did.
\<close>

section \<open>The states\<close>

inductive publishing ::
  "'p observe \<Rightarrow> clock \<Rightarrow> sink \<Rightarrow> 'p publisher \<Rightarrow> 'p publisher \<Rightarrow> trace \<Rightarrow> bool"
  for obs clk sink new where
  created: "publishing obs clk sink new new tr"
| published: "publishing obs clk sink new p tr \<Longrightarrow> publish obs clk sink p tr = (p', tr') \<Longrightarrow>
    publishing obs clk sink new p' tr'"
| ended: "publishing obs clk sink new p tr \<Longrightarrow> stopped fuel obs clk sink said p tr = Some (p', tr') \<Longrightarrow>
    publishing obs clk sink new p' tr'"
| meanwhile: "publishing obs clk sink new p tr \<Longrightarrow> prefix tr tr' \<Longrightarrow> publishing obs clk sink new p tr'"

section \<open>The invariant\<close>

text \<open>
  What a state keeps, of the publisher it was made as: its names; that nothing it remembers lies in the
  future; that once a write was asked for there is a publication to say the node stopped with; and
  that the last publication was posted to the board.
\<close>

definition same_names :: "'p publisher \<Rightarrow> 'p publisher \<Rightarrow> bool" where
  "same_names p q \<longleftrightarrow> pub_program p = pub_program q \<and> pub_path p = pub_path q \<and> pub_orders p = pub_orders q
     \<and> pub_cluster p = pub_cluster q \<and> pub_node p = pub_node q"

definition in_the_past :: "clock \<Rightarrow> 'p publisher \<Rightarrow> trace \<Rightarrow> bool" where
  "in_the_past clk p tr \<longleftrightarrow>
     pred_option (\<lambda>w. w \<le> clk tr) (written p) \<and> pred_option (\<lambda>f. since f \<le> clk tr) (refusing p)"

definition remembered :: "'p observe \<Rightarrow> 'p publisher \<Rightarrow> trace \<Rightarrow> bool" where
  "remembered obs p tr \<longleftrightarrow>
     (written p \<noteq> None \<or> refusing p \<noteq> None \<longrightarrow> last_published p \<noteq> None)
     \<and> pred_option (\<lambda>pub. Posted (to_toml obs pub) \<in> set tr) (last_published p)"

lemma same_names_refl [simp]: "same_names p p"
  by (simp add: same_names_def)

lemma same_names_trans: "same_names p q \<Longrightarrow> same_names q r \<Longrightarrow> same_names p r"
  by (simp add: same_names_def)

lemma in_the_past_later:
  "lawful_clock clk \<Longrightarrow> prefix tr tr' \<Longrightarrow> in_the_past clk p tr \<Longrightarrow> in_the_past clk p tr'"
  using lawful_clock_mono [of clk tr tr']
  by (auto simp: in_the_past_def pred_option_def intro: order.trans)

lemma remembered_later: "prefix tr tr' \<Longrightarrow> remembered obs p tr \<Longrightarrow> remembered obs p tr'"
  using set_mono_prefix [of tr tr'] by (auto simp: remembered_def pred_option_def)

subsection \<open>Each operation keeps it\<close>

lemma write_refused_names [simp]: "same_names (fst (write_refused clk sink error p tr)) p"
  by (simp add: same_names_def write_refused_def Let_def case_prod_unfold)

lemma write_out_names [simp]: "same_names (fst (snd (write_out obs clk sink pub p tr))) p"
  using write_refused_names [of clk sink _ p]
  by (auto simp: write_out_def Let_def same_names_def split: option.split)

lemma write_refused_written:
  assumes "lawful_clock clk"
  shows "written (fst (write_refused clk sink error p tr)) = written p
     \<or> (\<exists>w \<le> clk (snd (write_refused clk sink error p tr)).
          written (fst (write_refused clk sink error p tr)) = Some w)"
  by (auto simp: write_refused_def Let_def elapsed_since_def split: option.splits
      intro!: lawful_clock_mono [OF assms])

lemma write_refused_past:
  assumes clk: "lawful_clock clk" and past: "in_the_past clk p tr"
  shows "in_the_past clk (fst (write_refused clk sink error p tr)) (snd (write_refused clk sink error p tr))"
proof -
  let ?tr' = "snd (write_refused clk sink error p tr)"
  have later: "clk tr \<le> clk ?tr'"
    using clk write_refused_prefix by (rule lawful_clock_mono)
  obtain f where f: "refusing (fst (write_refused clk sink error p tr)) = Some f"
      "since f = (case refusing p of None \<Rightarrow> clk tr | Some g \<Rightarrow> since g)"
    using write_refused_refusing by metis
  have "since f \<le> clk ?tr'"
    using past later by (auto simp: f(2) in_the_past_def split: option.splits)
  moreover have "pred_option (\<lambda>w. w \<le> clk ?tr') (written (fst (write_refused clk sink error p tr)))"
    using write_refused_written [OF clk, of sink error p tr] past later
    by (auto simp: in_the_past_def pred_option_def)
  ultimately show ?thesis by (simp add: in_the_past_def f(1))
qed

lemma write_out_past:
  assumes "lawful_clock clk" "in_the_past clk p tr"
  shows "in_the_past clk (fst (snd (write_out obs clk sink pub p tr))) (snd (snd (write_out obs clk sink pub p tr)))"
proof (cases "write_atomic obs tr (pub_path p) (to_toml obs pub)")
  case None
  have "clk (tr @ [x, y]) \<le> clk (tr @ x # y # es)" for x y es
    using lawful_clock_mono [OF assms(1), of "tr @ [x, y]" "tr @ x # y # es"] by simp
  then show ?thesis using None by (simp add: write_out_def Let_def in_the_past_def)
next
  case (Some error)
  let ?tr = "tr @ [Wrote (pub_path p) (to_toml obs pub), Posted (to_toml obs pub)]"
  have "in_the_past clk p ?tr" using assms(1) _ assms(2) by (rule in_the_past_later) simp
  then show ?thesis using Some write_refused_past [OF assms(1)] by (simp add: write_out_def Let_def)
qed

lemma write_out_front:
  "prefix (tr @ [Wrote (pub_path p) (to_toml obs pub), Posted (to_toml obs pub)])
     (snd (snd (write_out obs clk sink pub p tr)))"
  using write_refused_prefix by (auto simp: write_out_def Let_def split: option.split)

lemma write_out_posts: "Posted (to_toml obs pub) \<in> set (snd (snd (write_out obs clk sink pub p tr)))"
  using write_out_front [THEN set_mono_prefix] by fastforce

text \<open>Publishing the stop writes it at once, and posts it.\<close>

lemma stopped_asks:
  assumes "stopped (Suc n) obs clk sink said p tr = Some (p', tr')" "last_published p = Some pub"
    and "text = to_toml obs (says_stopped obs (pub_cluster p) (pub_node p) pub said)"
  shows "prefix (tr @ [Looked, Wrote (pub_path p) text, Posted text]) tr'"
proof -
  let ?left = "says_stopped obs (pub_cluster p) (pub_node p) pub said"
  let ?w = "write_out obs clk sink ?left p (tr @ [Looked])"
  have "stopped_loop (Suc n) obs clk sink ?left (clk tr) p (tr @ [Looked]) = Some (p', tr')"
    using assms(1,2) by (simp add: stopped_def)
  then have "prefix (snd (snd ?w)) tr'"
    by (auto simp: case_prod_unfold elapsed_since_def split: bool.splits if_splits
        dest!: stopped_loop_quiet [THEN adds_prefix] append_prefixD)
  with write_out_front [of "tr @ [Looked]" p obs ?left clk sink] have
    "prefix ((tr @ [Looked]) @ [Wrote (pub_path p) text, Posted text]) tr'"
    unfolding assms(3) by (rule prefix_order.trans)
  then show ?thesis by simp
qed

lemma stopped_loop_keeps:
  "stopped_loop fuel obs clk sink left began p tr = Some (p', tr') \<Longrightarrow> lawful_clock clk \<Longrightarrow>
     in_the_past clk p tr \<Longrightarrow>
     same_names p' p \<and> last_published p' = last_published p \<and> in_the_past clk p' tr'
     \<and> prefix tr tr' \<and> Posted (to_toml obs left) \<in> set tr'"
proof (induction fuel arbitrary: p tr)
  case (Suc fuel)
  let ?w = "write_out obs clk sink left p tr"
  let ?p = "fst (snd ?w)" and ?t = "snd (snd ?w)"
  have one: "same_names ?p p" "last_published ?p = last_published p" "in_the_past clk ?p ?t"
      "prefix tr ?t" "Posted (to_toml obs left) \<in> set ?t"
    using Suc.prems(2,3) by (simp_all add: write_out_past write_out_prefix write_out_posts)
  have later: "in_the_past clk ?p (?t @ es)" for es
    using Suc.prems(2) _ one(3) by (rule in_the_past_later) simp
  consider "p' = ?p" "tr' = ?t \<or> tr' = ?t @ [Looked]"
    | "stopped_loop fuel obs clk sink left began ?p (?t @ [Looked, Slept AGAIN]) = Some (p', tr')"
    using Suc.prems(1) by (auto simp: case_prod_unfold elapsed_since_def split: bool.splits if_splits)
  then show ?case
  proof cases
    case 1
    then show ?thesis using one later by auto
  next
    case 2
    from Suc.IH [OF this Suc.prems(2) later] one show ?thesis
      by (auto intro: same_names_trans dest: append_prefixD elim: prefix_order.trans)
  qed
qed simp

lemma stopped_keeps:
  assumes "stopped fuel obs clk sink said p tr = Some (p', tr')" "lawful_clock clk" "in_the_past clk p tr"
  shows "same_names p' p \<and> last_published p' = last_published p \<and> in_the_past clk p' tr' \<and> prefix tr tr'
     \<and> pred_option (\<lambda>pub. Posted (to_toml obs (says_stopped obs (pub_cluster p) (pub_node p) pub said))
          \<in> set tr') (last_published p)"
proof (cases "last_published p")
  case None
  then show ?thesis using assms by (simp add: stopped_def)
next
  case (Some pub)
  have "in_the_past clk p (tr @ [Looked])" using assms(2) _ assms(3) by (rule in_the_past_later) simp
  from stopped_loop_keeps [OF _ assms(2) this] assms(1) Some show ?thesis
    using append_prefixD [of tr "[Looked]" tr'] by (simp add: stopped_def)
qed

subsection \<open>Every state keeps it\<close>

lemma publishing_invariant:
  assumes "publishing obs clk sink new p tr" "lawful_clock clk"
    and "written new = None" "refusing new = None" "last_published new = None"
  shows "same_names p new \<and> in_the_past clk p tr \<and> remembered obs p tr"
  using assms(1)
proof (induction rule: publishing.induct)
  case (created tr)
  then show ?case by (simp add: in_the_past_def remembered_def assms(3-5))
next
  case (published p tr p' tr')
  obtain pub where out: "p' = fst (snd (write_out obs clk sink pub p tr))\<lparr>last_published := Some pub\<rparr>"
      "tr' = snd (snd (write_out obs clk sink pub p tr))"
    using published.hyps(2) by (auto simp: publish_def Let_def case_prod_unfold)
  let ?w = "write_out obs clk sink pub p tr"
  have "same_names (fst (snd ?w)) new"
    by (rule same_names_trans [OF write_out_names]) (use published.IH in simp)
  moreover have "in_the_past clk (fst (snd ?w)) (snd (snd ?w))"
    using assms(2) published.IH by (simp add: write_out_past)
  ultimately show ?case
    by (simp add: out same_names_def in_the_past_def remembered_def write_out_posts)
next
  case (ended p tr fuel said p' tr')
  have past: "in_the_past clk p tr" "remembered obs p tr" "same_names p new" using ended.IH by simp_all
  note kept = stopped_keeps [OF ended.hyps(2) assms(2) past(1)]
  have "remembered obs p' tr'"
  proof (cases "last_published p")
    case None
    then have "p' = p" "tr' = tr" using ended.hyps(2) by (simp_all add: stopped_def)
    then show ?thesis using past(2) by simp
  next
    case (Some pub)
    have "remembered obs p tr'" using kept past(2) by (blast intro: remembered_later)
    then show ?thesis using kept Some by (simp add: remembered_def)
  qed
  moreover have "same_names p' new" using kept past(3) same_names_trans by blast
  ultimately show ?case using kept by simp
next
  case (meanwhile p tr tr')
  then show ?case using in_the_past_later [OF assms(2)] remembered_later by blast
qed

lemma publisher_states_keep_their_names:
  assumes "publishing obs clk sink (new_publisher program path orders cluster node) p tr" "lawful_clock clk"
  shows "pub_path p = path" "pub_cluster p = cluster" "pub_node p = node"
  using publishing_invariant [OF assms] by (simp_all add: new_publisher_def same_names_def)

text \<open>
  C11: In every state a publisher reaches, however it published, was refused and stopped, it is still
  the node's own that it was made for; the write and the refusal it remembers are no later than now,
  so the round it waits for is never counted from the future; once anything was written or refused it
  has a publication to say the stop with; and the last publication it made was posted to the board.
\<close>

theorem publisher_states_keep_their_invariant:
  assumes "publishing obs clk sink (new_publisher program path orders cluster node) p tr" "lawful_clock clk"
  shows "pub_program p = program \<and> pub_path p = path \<and> pub_orders p = orders \<and> pub_cluster p = cluster
     \<and> pub_node p = node
     \<and> pred_option (\<lambda>w. w \<le> clk tr) (written p) \<and> pred_option (\<lambda>f. since f \<le> clk tr) (refusing p)
     \<and> (last_published p = None \<longrightarrow> written p = None \<and> refusing p = None)
     \<and> pred_option (\<lambda>pub. Posted (to_toml obs pub) \<in> set tr) (last_published p)"
  using publishing_invariant [OF assms]
  by (auto simp: new_publisher_def same_names_def in_the_past_def remembered_def)

section \<open>The publisher of a run\<close>

lemma before_hearing_publishing:
  assumes "publishing obs clk sink new p tr"
    and "\<And>t. prefix t (snd (take_left t))"
    and "before_hearing (publisher_pacing obs clk sink) take_left taking acted p tr = (p', within, tr')"
  shows "publishing obs clk sink new p' tr'"
proof -
  define t1 where "t1 = (if taking then take_left tr else (0, tr))"
  define t2 where "t2 = (if 0 < fst t1 \<or> acted then (True, snd t1) else due clk p (snd t1))"
  define t3 where "t3 = (if fst t2 then publish obs clk sink p (snd t2) else (p, snd t2))"
  have "prefix tr (snd t1)" using assms(2) by (simp add: t1_def)
  moreover have "prefix (snd t1) (snd t2)" by (simp add: t2_def due_prefix)
  ultimately have at2: "publishing obs clk sink new p (snd t2)"
    using assms(1) by (blast intro: publishing.meanwhile)
  have "publishing obs clk sink new (fst t3) (snd t3)"
    using at2 by (auto simp: t3_def intro: publishing.published)
  then have "publishing obs clk sink new (fst t3) (snd (next_wait clk (fst t3) (snd t3)))"
    using next_wait_prefix by (rule publishing.meanwhile)
  moreover have "before_hearing (publisher_pacing obs clk sink) take_left taking acted p tr
      = (fst t3, next_wait clk (fst t3) (snd t3))"
    by (simp add: before_hearing_def publisher_pacing_def t1_def t2_def t3_def Let_def case_prod_unfold
        cong: if_cong)
  ultimately show ?thesis
    using assms(3) by (cases "next_wait clk (fst t3) (snd t3)") auto
qed

text \<open>
  The publication remembered is the last one written: what the node said at some moment, written and
  posted then, and nothing written since.
\<close>

definition last_made :: "'p observe \<Rightarrow> 'p publisher \<Rightarrow> trace \<Rightarrow> bool" where
  "last_made obs p tr \<longleftrightarrow>
     (\<exists>t es published.
        published = with_orders obs (node_says obs t (pub_program p)) (pub_orders p)
      \<and> last_published p = Some published
      \<and> tr = t @ [Wrote (pub_path p) (to_toml obs published), Posted (to_toml obs published)] @ es
      \<and> writes es = 0)"

lemma publish_last:
  assumes "publish obs clk sink p tr = (p', tr')"
  shows "last_made obs p' tr'"
proof -
  let ?pub = "with_orders obs (node_says obs tr (pub_program p)) (pub_orders p)"
  let ?w = "write_out obs clk sink ?pub p tr"
  have p': "p' = (fst (snd ?w))\<lparr>last_published := Some ?pub\<rparr>" "tr' = snd (snd ?w)"
    using assms by (auto simp: publish_def Let_def case_prod_unfold)
  obtain es where es: "tr' = tr @ [Wrote (pub_path p) (to_toml obs ?pub), Posted (to_toml obs ?pub)] @ es"
    using write_out_front [of tr p obs ?pub clk sink] unfolding p'(2) by (auto simp: prefix_def)
  have "writes tr' = Suc (writes tr)" using writes_publish [of obs clk sink p tr] assms by simp
  then have "writes es = 0" by (simp add: es)
  moreover have "pub_program p' = pub_program p" "pub_orders p' = pub_orders p" "pub_path p' = pub_path p"
    using write_out_names [of obs clk sink ?pub p tr] by (simp_all add: p'(1) same_names_def)
  ultimately show ?thesis
    unfolding last_made_def by (intro exI [of _ tr] exI [of _ es] exI [of _ ?pub]) (simp add: es p'(1))
qed

lemma last_made_later: "last_made obs p tr \<Longrightarrow> prefix tr tr' \<Longrightarrow> writes tr' = writes tr \<Longrightarrow> last_made obs p tr'"
  by (auto simp: last_made_def prefix_def)

lemma before_hearing_last:
  assumes "last_made obs p tr"
    and "\<And>t. prefix t (snd (take_left t))" "\<And>t. writes (snd (take_left t)) = writes t"
    and "before_hearing (publisher_pacing obs clk sink) take_left taking acted p tr = (p', within, tr')"
  shows "last_made obs p' tr'"
proof -
  define t1 where "t1 = (if taking then take_left tr else (0, tr))"
  define t2 where "t2 = (if 0 < fst t1 \<or> acted then (True, snd t1) else due clk p (snd t1))"
  define t3 where "t3 = (if fst t2 then publish obs clk sink p (snd t2) else (p, snd t2))"
  have "last_made obs p (snd t1)"
    using assms(1) by (rule last_made_later) (simp_all add: t1_def assms(2,3))
  then have "last_made obs p (snd t2)"
    by (rule last_made_later) (simp_all add: t2_def due_prefix)
  then have "last_made obs (fst t3) (snd t3)"
    by (auto simp: t3_def intro: publish_last)
  then have "last_made obs (fst t3) (snd (next_wait clk (fst t3) (snd t3)))"
    by (rule last_made_later) (simp_all add: next_wait_prefix)
  moreover have "before_hearing (publisher_pacing obs clk sink) take_left taking acted p tr
      = (fst t3, next_wait clk (fst t3) (snd t3))"
    by (simp add: before_hearing_def publisher_pacing_def t1_def t2_def t3_def Let_def case_prod_unfold
        cong: if_cong)
  ultimately show ?thesis
    using assms(4) by (cases "next_wait clk (fst t3) (snd t3)") auto
qed

text \<open>What every turn keeps, the whole loop does.\<close>

lemma served_loop_keeps:
  assumes turn: "\<And>taking acted p tr p' within tr'.
      before_hearing ops take_left taking acted p tr = (p', within, tr') \<Longrightarrow> P p tr \<Longrightarrow>
      P p' (tr' @ [Waited within])"
  shows "served_loop fuel ops take_left recv taking acted p tr = Some (by, p', tr') \<Longrightarrow> P p tr \<Longrightarrow> P p' tr'"
proof (induction fuel arbitrary: taking acted p tr)
  case (Suc fuel)
  obtain p1 within tr1 where b: "before_hearing ops take_left taking acted p tr = (p1, within, tr1)"
    by (metis prod_cases3)
  note kept = turn [OF b Suc.prems(2)]
  show ?case
  proof (cases "fst (hear recv within tr1)")
    case (Inl who)
    then show ?thesis using Suc.prems(1) b kept by (auto simp: case_prod_unfold)
  next
    case (Inr what)
    then have "served_loop fuel ops take_left recv (fst what) (snd what) p1 (tr1 @ [Waited within])
        = Some (by, p', tr')"
      using Suc.prems(1) b by (auto simp: case_prod_unfold)
    then show ?thesis using kept by (rule Suc.IH)
  qed
qed simp

lemma served_loop_publishing:
  assumes "served_loop fuel (publisher_pacing obs clk sink) take_left recv taking acted p tr = Some (by, p', tr')"
    and "\<And>t. prefix t (snd (take_left t))" "publishing obs clk sink new p tr"
  shows "publishing obs clk sink new p' tr'"
  using _ assms(1,3)
proof (rule served_loop_keeps)
  fix taking acted p tr p1 within tr1
  assume "before_hearing (publisher_pacing obs clk sink) take_left taking acted p tr = (p1, within, tr1)"
    and "publishing obs clk sink new p tr"
  then have "publishing obs clk sink new p1 tr1" using assms(2) by (blast intro: before_hearing_publishing)
  then show "publishing obs clk sink new p1 (tr1 @ [Waited within])" by (rule publishing.meanwhile) simp
qed

lemma served_loop_last:
  assumes "served_loop fuel (publisher_pacing obs clk sink) take_left recv taking acted p tr = Some (by, p', tr')"
    and "\<And>t. prefix t (snd (take_left t))" "\<And>t. writes (snd (take_left t)) = writes t" "last_made obs p tr"
  shows "last_made obs p' tr'"
  using _ assms(1,4)
proof (rule served_loop_keeps)
  fix taking acted p tr p1 within tr1
  assume "before_hearing (publisher_pacing obs clk sink) take_left taking acted p tr = (p1, within, tr1)"
    and "last_made obs p tr"
  then have "last_made obs p1 tr1" using assms(2,3) by (blast intro: before_hearing_last)
  then show "last_made obs p1 (tr1 @ [Waited within])" by (rule last_made_later) simp_all
qed

lemma take_orders_only_adds: "prefix t (snd (take_orders api program sink t))"
  using take_orders_quiet by (rule adds_prefix)

lemma begin_serving_publishing:
  assumes "begin_serving w program configuration purpose ready prep tr = (is_declared, publisher, tr')"
    and "\<And>t. prefix t (ready t)" "\<And>t. writes (ready t) = writes t"
  shows "publishing (the_observe w) (the_clock w) (the_sink w) (prep_publisher prep) publisher tr'
     \<and> last_made (the_observe w) publisher tr'"
proof -
  obtain t4 p t where p: "publish (the_observe w) (the_clock w) (the_sink w) (prep_publisher prep) t4 = (p, t)"
    and publisher: "publisher = p"
    and tr': "tr' = ready (t @ [Println (program @ '': '' @ location_of (the_node w) (prep_running prep)
       @ '' accepts work'')])"
    using assms(1) unfolding begin_serving_def Let_def case_prod_unfold prod.inject by (metis prod.collapse)
  have "publishing (the_observe w) (the_clock w) (the_sink w) (prep_publisher prep) p t"
    by (rule publishing.published [OF publishing.created p])
  moreover have "prefix t tr'"
    unfolding tr' using assms(2) append_prefixD by blast
  moreover have "writes tr' = writes t" by (simp add: tr' assms(3))
  ultimately show ?thesis
    unfolding publisher using publish_last [OF p] by (blast intro: publishing.meanwhile last_made_later)
qed

lemma prepare_publisher:
  assumes "prepare w program configuration tr = (Some prep, tr')"
  shows "prep_publisher prep = new_publisher program
       (display (publication_place (data_of (the_node w) (prep_running prep))))
       (display (orders_place (data_of (the_node w) (prep_running prep))))
       (cluster_of (the_node w) (prep_running prep)) (node_of (the_node w) (prep_running prep))"
  using assms
  by (auto simp: prepare_def Let_def split: sum.splits prod.splits option.splits)

text \<open>The publisher the loop leaves: of the names it was made with, and the last publication its own.\<close>

lemma served_publisher:
  assumes "lawful_clock (the_clock w)" "\<And>t. prefix t (ready t)" "\<And>t. writes (ready t) = writes t"
    and "prepare w program configuration tr = (Some prep, tr1)"
    and "begin_serving w program configuration purpose ready prep tr1 = (is_declared, publisher, tr2)"
    and "served fuel (publisher_pacing (the_observe w) (the_clock w) (the_sink w))
       (take_orders (the_orders w) program (the_sink w)) (the_receiver w) publisher tr2
     = Some (who, publisher', tr3)"
  shows "last_made (the_observe w) publisher' tr3" "pub_program publisher' = program"
    "pub_path publisher' = display (publication_place (data_of (the_node w) (prep_running prep)))"
    "pub_orders publisher' = display (orders_place (data_of (the_node w) (prep_running prep)))"
    "pub_cluster publisher' = cluster_of (the_node w) (prep_running prep)"
    "pub_node publisher' = node_of (the_node w) (prep_running prep)"
proof -
  note begun = begin_serving_publishing [OF assms(5,2,3)]
  note loop = assms(6) [unfolded served_def]
  show "last_made (the_observe w) publisher' tr3"
    by (rule served_loop_last [OF loop take_orders_only_adds]) (simp_all add: begun)
  have "publishing (the_observe w) (the_clock w) (the_sink w) (prep_publisher prep) publisher' tr3"
    using begun by (intro served_loop_publishing [OF loop take_orders_only_adds]) simp
  from publishing_invariant [OF this assms(1)] show "pub_program publisher' = program"
    "pub_path publisher' = display (publication_place (data_of (the_node w) (prep_running prep)))"
    "pub_orders publisher' = display (orders_place (data_of (the_node w) (prep_running prep)))"
    "pub_cluster publisher' = cluster_of (the_node w) (prep_running prep)"
    "pub_node publisher' = node_of (the_node w) (prep_running prep)"
    by (simp_all add: prepare_publisher [OF assms(4)] new_publisher_def same_names_def)
qed

text \<open>The sentence of a stop, word by word.\<close>

definition stop_words :: "stopped_by \<Rightarrow> outcomes \<Rightarrow> nat \<Rightarrow> string" where
  "stop_words who out ms =
     ''stopped by '' @ who @ '', drained in '' @ decimal ms
     @ '' ms: received '' @ decimal (out_received out) @ '', routed '' @ decimal (out_routed out)
     @ '', unroutable '' @ decimal (out_unroutable out) @ '', refused '' @ decimal (out_refused out)
     @ '', failed '' @ decimal (out_failed out) @ '', sent '' @ decimal (out_sent out)
     @ '', not_sent '' @ decimal (out_not_sent out)
     @ (case own_share out of
          None \<Rightarrow> []
        | Some own \<Rightarrow> ''; Xmip's own share per Message '' @ debug_duration own)"

lemma drained_sentence_words: "drained_sentence who out (decimal ms) = stop_words who out ms"
  by (simp add: drained_sentence_def counts_def stop_words_def join_with.simps)

text \<open>What is done behind the drain, given the last publication.\<close>

lemma drain_and_say_publishes:
  assumes "drain_and_say w program stopping running is_declared who p tr = Some tr'"
    and "last_published p = Some pub" "t = stopping (tr @ [Unwatched])"
    and "said = stop_words who (drain_node (the_node w) (t @ [Looked]) running)
      ((the_clock w (t @ [Looked, Drained]) - the_clock w t) div 1000000)"
    and "content = to_toml (the_observe w)
      (says_stopped (the_observe w) (pub_cluster p) (pub_node p) pub said)"
  shows "\<exists>left. tr' = t @ [Looked, Drained, Looked] @ left
     \<and> Wrote (pub_path p) content \<in> set left \<and> Posted content \<in> set left
     \<and> Println (program @ '': '' @ location_of (the_node w) running @ '' '' @ said) \<in> set left"
proof -
  let ?out = "drain_node (the_node w) (t @ [Looked]) running"
    and ?ms = "decimal ((the_clock w (t @ [Looked, Drained]) - the_clock w t) div 1000000)"
  let ?recorded = "record_event (the_sink w) ''stop'' Finished
    (drained_properties (location_of (the_node w) running) who ?out ?ms) (t @ [Looked, Drained, Looked])"
  from drain_and_say_stages [OF assms(1,3) refl refl refl] obtain p' t' rest where
    last: "Publication.stopped ATTEMPTS (the_observe w) (the_clock w) (the_sink w) said p ?recorded = Some (p', t')"
    and tr': "tr' = t' @ [Println (program @ '': '' @ location_of (the_node w) running @ '' '' @ said)] @ rest"
    unfolding drained_sentence_words assms(4) by blast
  have "prefix (?recorded @ [Looked, Wrote (pub_path p) content, Posted content]) t'"
    by (rule stopped_asks [OF _ assms(2)]) (use last in \<open>simp_all add: ATTEMPTS_def assms(5)\<close>)
  moreover obtain es where "?recorded = (t @ [Looked, Drained, Looked]) @ es"
    using adds_prefix [OF quiet_record_event [OF adds_refl]] unfolding prefix_def by blast
  ultimately obtain es' where
    "t' = t @ [Looked, Drained, Looked] @ es @ [Looked, Wrote (pub_path p) content, Posted content] @ es'"
    by (auto simp: prefix_def)
  then show ?thesis by (simp add: tr')
qed

text \<open>
  C5: A run that stopped published that it did.  Behind the drain it wrote where the node publishes, and
  posted to the board, as one that stopped, the node's last publication, which is what the node said of
  itself at some moment of the run, written and posted then and nothing written since; it says in words
  who stopped the node, the first stop of what it was told at its last wait, how long the drain took and
  what the drained node counts; and the run prints the same words.
\<close>

theorem stop_is_published:
  assumes "lawful_clock (the_clock w)" "\<And>t. prefix t (ready t)" "\<And>t. writes (ready t) = writes t"
    and "serve w program configuration purpose ready stopping fuel tr = Some (Stopped, tr')"
  shows "\<exists>running heard within who t t0 es published said text left.
     start_node (the_node w) tr configuration (the_linked w) = Inr running
     \<and> told_to_stop (the_receiver w heard within) = Some who
     \<and> published = with_orders (the_observe w) (node_says (the_observe w) t0 program)
         (display (orders_place (data_of (the_node w) running)))
     \<and> heard @ [Waited within] =
         t0 @ [Wrote (display (publication_place (data_of (the_node w) running))) (to_toml (the_observe w) published),
               Posted (to_toml (the_observe w) published)] @ es
     \<and> writes es = 0
     \<and> t = stopping (heard @ [Waited within, Unwatched])
     \<and> said = stop_words who (drain_node (the_node w) (t @ [Looked]) running)
         ((the_clock w (t @ [Looked, Drained]) - the_clock w t) div 1000000)
     \<and> text = to_toml (the_observe w) (says_stopped (the_observe w)
         (cluster_of (the_node w) running) (node_of (the_node w) running) published said)
     \<and> tr' = t @ [Looked, Drained, Looked] @ left
     \<and> Wrote (display (publication_place (data_of (the_node w) running))) text \<in> set left
     \<and> Posted text \<in> set left
     \<and> Println (program @ '': '' @ location_of (the_node w) running @ '' '' @ said) \<in> set left"
  using assms(4)
proof (cases rule: serve_cases)
  case (stopped prep tr1 is_declared publisher tr2 who publisher' tr3)
  let ?running = "prep_running prep" and ?api = "the_node w" and ?obs = "the_observe w"
  note kept = served_publisher [OF assms(1-3) stopped(2-4)]
  obtain heard within where heard: "tr3 = heard @ [Waited within]"
      "told_to_stop (the_receiver w heard within) = Some who"
    using service.loop_heard [OF stopped(4) [unfolded served_def]] by blast
  obtain t0 es published where made: "published = with_orders ?obs (node_says ?obs t0 program)
        (display (orders_place (data_of ?api ?running)))"
      "last_published publisher' = Some published" "writes es = 0"
      "tr3 = t0 @ [Wrote (display (publication_place (data_of ?api ?running))) (to_toml ?obs published),
         Posted (to_toml ?obs published)] @ es"
    using kept(1) unfolding last_made_def kept(2-4) by blast
  from drain_and_say_publishes [OF stopped(5) made(2) refl refl refl, unfolded kept(3,5,6)]
  show ?thesis
    using prepare_running [OF stopped(2)] heard(2) made(1) made(4) [unfolded heard(1)] made(3)
    unfolding heard(1) append.assoc append_Cons append_Nil by blast
qed simp

theorem stop_is_published_witness:
  "\<exists>tr' who out ms. serve plain_world ''xmip'' ''ok'' Runtime plain_ready plain_stopping 2 [] = Some (Stopped, tr')
     \<and> Println (''xmip: C/N '' @ stop_words who out ms) \<in> set tr'
     \<and> (\<exists>text. Wrote ''/data/snapshot.xmip'' text \<in> set tr' \<and> Posted text \<in> set tr')"
proof -
  obtain tr' where run: "serve plain_world ''xmip'' ''ok'' Runtime plain_ready plain_stopping 2 []
      = Some (Stopped, tr')" using plain_run by blast
  have "location_of (the_node plain_world) r = ''C/N''" "data_of (the_node plain_world) r = path_of ''/data''" for r
    by (simp_all add: plain_world_def plain_node_def)
  moreover have "display (publication_place (path_of ''/data'')) = ''/data/snapshot.xmip''"
    by code_simp
  moreover have "prefix t (plain_ready t)" "writes (plain_ready t) = writes t" for t
    by (simp_all add: plain_ready_def writes_def)
  note stop_is_published [OF plain_clock this run]
  ultimately show ?thesis using run by fastforce
qed

text \<open>A publisher refused once, a round ago, and its invariant.\<close>

theorem publisher_states_keep_their_invariant_witness:
  "\<exists>p tr. publish (plain_observe (Some ''held'')) logical_clock (\<lambda>_ _. None)
       (new_publisher ''xmip'' ''s'' ''o'' ''C'' ''N'') [] = (p, tr)
     \<and> pub_path p = ''s'' \<and> pred_option (\<lambda>f. since f \<le> logical_clock tr) (refusing p)"
proof -
  let ?obs = "plain_observe (Some ''held'')" and ?new = "new_publisher ''xmip'' ''s'' ''o'' ''C'' ''N''"
  obtain p tr where p: "publish ?obs logical_clock (\<lambda>_ _. None) ?new [] = (p, tr)" by (metis surj_pair)
  have "publishing ?obs logical_clock (\<lambda>_ _. None) ?new p tr"
    using publishing.created p by (rule publishing.published)
  from publisher_states_keep_their_invariant [OF this logical_clock_lawful] p show ?thesis by blast
qed

end
