(* ===== verification/Publisher_Health.thy ===== *)
theory Publisher_Health
  imports Lifecycle
begin

text \<open>
  What the publisher is meant to do about refused writes, as an abstract machine of three states, and
  that the code refines it: for any writes, spread over any time, it is in the machine's state and
  tells what the machine tells, as long as the clock reads the same from a write to the end of what is
  done about it.  The proviso is needed: \<open>publication_failure_can_be_silenced\<close> is a run without it.
\<close>

section \<open>The machine\<close>

text \<open>
  Nothing is refused; refused since a time and not audited; audited.  With it, when the next round is
  counted from.
\<close>

datatype health = Well | Refusing_since nat | Told_since nat

type_synonym condition = "health \<times> nat option"

text \<open>One write, at a time, accepted or not: the next condition, whether it is audited as a failure
  and whether it is said that the publisher publishes again.\<close>

fun health_step :: "nat \<Rightarrow> bool \<Rightarrow> condition \<Rightarrow> condition \<times> bool \<times> bool" where
  "health_step now True (h, w) = ((Well, Some now), False, (\<exists>b. h = Told_since b))"
| "health_step now False (Well, w) = ((Refusing_since now, w), False, False)"
| "health_step now False (Refusing_since b, w) =
     (if b + EVERY \<le> now then ((Told_since b, Some now), True, False)
      else ((Refusing_since b, w), False, False))"
| "health_step now False (Told_since b, w) = ((Told_since b, Some now), False, False)"

fun health_run :: "(nat \<times> bool) list \<Rightarrow> condition \<Rightarrow> condition \<times> (bool \<times> bool) list" where
  "health_run [] c = (c, [])"
| "health_run ((now, accepted) # rest) c =
     (case health_step now accepted c of
        (c', told) \<Rightarrow> (case health_run rest c' of (c'', tolds) \<Rightarrow> (c'', told # tolds)))"

section \<open>The publisher as the machine\<close>

definition health_of :: "'p publisher \<Rightarrow> health" where
  "health_of p =
     (case refusing p of
        None \<Rightarrow> Well
      | Some f \<Rightarrow> if audited f then Told_since (since f) else Refusing_since (since f))"

definition condition_of :: "'p publisher \<Rightarrow> condition" where
  "condition_of p = (health_of p, written p)"

text \<open>What a write told, read from what it added to the trace: at most one failure, and the words.\<close>

fun told_as :: "'p publisher \<Rightarrow> bool \<times> bool \<Rightarrow> trace \<Rightarrow> bool" where
  "told_as p (audits, again) es \<longleftrightarrow>
     failures es = (if audits then [''publish''] else []) \<and> (again \<longleftrightarrow> Println (publishes_again p) \<in> set es)"

text \<open>Writes after what happened between: each what was added, and the time and answer of each.\<close>

fun write_spread ::
  "'p observe \<Rightarrow> clock \<Rightarrow> sink \<Rightarrow> (trace \<times> 'p) list \<Rightarrow> 'p publisher \<Rightarrow> trace
     \<Rightarrow> 'p publisher \<times> trace \<times> trace list \<times> (nat \<times> bool) list" where
  "write_spread obs clk sink [] p tr = (p, tr, [], [])"
| "write_spread obs clk sink ((gap, pub) # rest) p tr =
     (case write_out obs clk sink pub p (tr @ gap) of
        (ok, p', tr') \<Rightarrow>
          (case write_spread obs clk sink rest p' tr' of
             (p'', tr'', added, history) \<Rightarrow>
               (p'', tr'', drop (length tr + length gap) tr' # added, (clk tr', ok) # history)))"

text \<open>The clock reads the same from each write to the end of what is done about it.\<close>

fun steady :: "'p observe \<Rightarrow> clock \<Rightarrow> sink \<Rightarrow> (trace \<times> 'p) list \<Rightarrow> 'p publisher \<Rightarrow> trace \<Rightarrow> bool" where
  "steady obs clk sink [] p tr \<longleftrightarrow> True"
| "steady obs clk sink ((gap, pub) # rest) p tr \<longleftrightarrow>
     (case write_out obs clk sink pub p (tr @ gap) of
        (_, p', tr') \<Rightarrow> clk tr' = clk (tr @ gap) \<and> steady obs clk sink rest p' tr')"

section \<open>Refinement\<close>

lemma steady_between:
  assumes "lawful_clock clk" "clk tr' = clk tr" "prefix tr t" "prefix t tr'"
  shows "clk t = clk tr"
  using lawful_clock_mono [OF assms(1,3)] lawful_clock_mono [OF assms(1,4)] assms(2) by simp

lemma overdue_iff: "EVERY \<le> now - b \<longleftrightarrow> b + EVERY \<le> now"
  by (auto simp: EVERY_def)

text \<open>Where the clock stands still, a refused write does as the machine.\<close>

lemma refused_afresh:
  assumes "refusing p = None" "clk (tr @ [Looked]) = clk tr" "clk (tr @ [Looked, Looked]) = clk tr"
    and "clk (tr @ [Looked, Looked, Looked]) = clk tr"
  shows "write_refused clk sink error p tr =
     (p\<lparr>refusing := Some \<lparr>since = clk tr, audited = False\<rparr>\<rparr>, tr @ [Looked, Looked, Looked, Looked])"
  using assms by (simp add: write_refused_def Let_def elapsed_since_def EVERY_def)

lemma refused_early:
  assumes "refusing p = Some f" "\<not> audited f" "\<not> since f + EVERY \<le> clk tr"
    and "clk (tr @ [Looked]) = clk tr" "clk (tr @ [Looked, Looked]) = clk tr"
  shows "write_refused clk sink error p tr =
     (p\<lparr>refusing := Some f\<rparr>, tr @ [Looked, Looked, Looked])"
  using assms by (cases f) (simp add: write_refused_def Let_def elapsed_since_def overdue_iff)

lemma refused_overdue:
  assumes "refusing p = Some f" "\<not> audited f" "since f + EVERY \<le> clk tr"
    and "t = fail sink ''publish'' (publishing_refused p error) (tr @ [Looked, Looked, Looked])"
    and "clk (tr @ [Looked]) = clk tr" "clk (tr @ [Looked, Looked]) = clk tr" "clk t = clk tr"
  shows "write_refused clk sink error p tr =
     (p\<lparr>written := Some (clk tr), refusing := Some \<lparr>since = since f, audited = True\<rparr>\<rparr>, t @ [Looked])"
  using assms by (simp add: write_refused_def Let_def elapsed_since_def overdue_iff)

lemma refused_told:
  assumes "refusing p = Some f" "audited f"
  shows "write_refused clk sink error p tr =
     (p\<lparr>written := Some (clk tr), refusing := Some f\<rparr>, tr @ [Looked])"
  using assms by (cases f) (simp add: write_refused_def Let_def)

text \<open>The readings it makes, before any of them decides anything.\<close>

lemma write_refused_looks:
  "refusing p = None \<Longrightarrow> prefix (tr @ [Looked, Looked, Looked]) (snd (write_refused clk sink error p tr))"
  "refusing p = Some f \<Longrightarrow> \<not> audited f \<Longrightarrow>
     prefix (tr @ [Looked, Looked]) (snd (write_refused clk sink error p tr))"
  "refusing p = Some f \<Longrightarrow> \<not> audited f \<Longrightarrow> EVERY \<le> clk tr - since f \<Longrightarrow>
     EVERY \<le> clk (tr @ [Looked, Looked]) - since f \<Longrightarrow>
     prefix (fail sink ''publish'' (publishing_refused p error) (tr @ [Looked, Looked, Looked]))
       (snd (write_refused clk sink error p tr))"
  by (auto simp: write_refused_def Let_def elapsed_since_def intro!: prefix_prefix)

lemma write_refused_machine:
  assumes "lawful_clock clk" "write_refused clk sink error p tr = (p', tr')" "clk tr' = clk tr"
  shows "\<exists>audits. health_step (clk tr) False (condition_of p) = (condition_of p', audits, False)
     \<and> failures tr' = failures tr @ (if audits then [''publish''] else [])"
proof -
  have still: "clk t = clk tr" if "prefix tr t" "prefix t (snd (write_refused clk sink error p tr))" for t
    using steady_between [OF assms(1,3) that(1)] that(2) assms(2) by simp
  have first: "clk (tr @ [Looked]) = clk tr" if "prefix (tr @ [Looked, Looked]) (snd (write_refused clk sink error p tr))"
    by (rule still) (use that prefix_order.trans [of "tr @ [Looked]" "tr @ [Looked, Looked]"] in simp_all)
  show ?thesis
  proof (cases "refusing p")
    case None
    note looks = write_refused_looks(1) [OF None, of tr clk sink error]
    have "clk (tr @ [Looked, Looked, Looked]) = clk tr" by (rule still) (use looks in simp_all)
    moreover have two: "prefix (tr @ [Looked, Looked]) (snd (write_refused clk sink error p tr))"
      using looks prefix_order.trans [of "tr @ [Looked, Looked]" "tr @ [Looked, Looked, Looked]"] by simp
    moreover have "clk (tr @ [Looked, Looked]) = clk tr" by (rule still) (use two in simp_all)
    ultimately have "write_refused clk sink error p tr = (p\<lparr>refusing := Some \<lparr>since = clk tr, audited = False\<rparr>\<rparr>,
        tr @ [Looked, Looked, Looked, Looked])"
      using first by (intro refused_afresh [OF None])
    then show ?thesis using None assms(2) by (auto simp: condition_of_def health_of_def)
  next
    case (Some f)
    show ?thesis
    proof (cases "audited f")
      case True
      then show ?thesis
        using refused_told [OF Some True, of clk sink error tr] Some assms(2)
        by (auto simp: condition_of_def health_of_def)
    next
      case False
      note two = write_refused_looks(2) [OF Some False, of tr clk sink error]
      have clocks: "clk (tr @ [Looked]) = clk tr" "clk (tr @ [Looked, Looked]) = clk tr"
        using first [OF two] still [OF _ two] by simp_all
      show ?thesis
      proof (cases "since f + EVERY \<le> clk tr")
        case True
        let ?t = "fail sink ''publish'' (publishing_refused p error) (tr @ [Looked, Looked, Looked])"
        have "clk ?t = clk tr"
        proof (rule still)
          show "prefix ?t (snd (write_refused clk sink error p tr))"
            using True clocks(2) by (intro write_refused_looks(3) [OF Some False]) (simp_all add: overdue_iff)
        qed simp
        from refused_overdue [OF Some False True refl clocks this] show ?thesis
          using Some False True assms(2) by (auto simp: condition_of_def health_of_def)
      next
        case early: False
        from refused_early [OF Some False early clocks, of sink error] show ?thesis
          using Some False early assms(2) by (auto simp: condition_of_def health_of_def)
      qed
    qed
  qed
qed

lemma write_out_machine:
  assumes "lawful_clock clk" "write_out obs clk sink pub p tr = (ok, p', tr')" "clk tr' = clk tr"
  shows "\<exists>told. health_step (clk tr') ok (condition_of p) = (condition_of p', told)
     \<and> told_as p told (drop (length tr) tr')"
proof -
  let ?tr = "tr @ [Wrote (pub_path p) (to_toml obs pub), Posted (to_toml obs pub)]"
  obtain es where es: "tr' = tr @ es"
    using write_out_prefix [of tr obs clk sink pub p] assms(2) by (auto simp: prefix_def)
  show ?thesis
  proof (cases "write_atomic obs tr (pub_path p) (to_toml obs pub)")
    case None
    have "clk ?tr = clk tr"
      using None assms(2) by (intro steady_between [OF assms(1,3)]) (auto simp: write_out_def Let_def)
    then show ?thesis
      using None assms(2,3)
      by (auto simp: write_out_def Let_def condition_of_def health_of_def split: option.splits)
  next
    case (Some error)
    obtain q u where refused: "write_refused clk sink error p ?tr = (q, u)" by (cases "write_refused clk sink error p ?tr")
    have out: "ok = False" "p' = q" "tr' = u"
      using assms(2) Some refused by (simp_all add: write_out_def Let_def)
    have front: "prefix ?tr u" using write_refused_prefix [of ?tr clk sink error p] refused by simp
    then have now: "clk ?tr = clk tr" using steady_between [OF assms(1,3)] out(3) by simp
    have "adds (\<lambda>e. e \<noteq> Println (publishes_again p)) ?tr u"
      using write_refused_adds [of "\<lambda>e. e \<noteq> Println (publishes_again p)" ?tr clk sink error p] refused by simp
    moreover have "u = ?tr @ drop 2 es" using front es out(3) by (auto simp: prefix_def)
    ultimately have "list_all (\<lambda>e. e \<noteq> Println (publishes_again p)) (drop 2 es)"
      by (metis adds_append)
    moreover have "take 2 es = [Wrote (pub_path p) (to_toml obs pub), Posted (to_toml obs pub)]"
      using front es out(3) by (auto simp: prefix_def)
    ultimately have "Println (publishes_again p) \<notin> set (take 2 es @ drop 2 es)"
      by (auto simp: list_all_iff)
    then have "Println (publishes_again p) \<notin> set es" by simp
    obtain audits where step: "health_step (clk tr) False (condition_of p) = (condition_of q, audits, False)"
        "failures u = failures ?tr @ (if audits then [''publish''] else [])"
      using write_refused_machine [OF assms(1) refused] now assms(3) out(3) by auto
    have "failures u = failures tr @ failures es" using es out(3) by simp
    then have "told_as p (audits, False) es" using step(2) \<open>Println (publishes_again p) \<notin> set es\<close> by simp
    moreover have "drop (length tr) tr' = es" by (simp add: es)
    ultimately show ?thesis using step(1) assms(3) out(1,2) by (intro exI [of _ "(audits, False)"]) simp
  qed
qed

lemma spread_machine:
  "lawful_clock clk \<Longrightarrow> steady obs clk sink ws p tr \<Longrightarrow>
     write_spread obs clk sink ws p tr = (p', tr', added, history) \<Longrightarrow>
     \<exists>tolds. health_run history (condition_of p) = (condition_of p', tolds) \<and> list_all2 (told_as p) tolds added"
proof (induction ws arbitrary: p tr p' tr' added history)
  case (Cons one rest)
  obtain gap pub where one: "one = (gap, pub)" by (cases one)
  obtain ok p1 tr1 where out: "write_out obs clk sink pub p (tr @ gap) = (ok, p1, tr1)" by (metis prod_cases3)
  obtain p2 tr2 added2 history2 where more: "write_spread obs clk sink rest p1 tr1 = (p2, tr2, added2, history2)"
    by (metis prod_cases4)
  have "publishes_again p1 = publishes_again p"
    using write_out_keeps [of obs clk sink pub p "tr @ gap"] out by (simp add: publishes_again_def)
  then have same: "told_as p1 = told_as p" by (simp add: fun_eq_iff)
  have "clk tr1 = clk (tr @ gap)" using Cons.prems(2) one out by simp
  from write_out_machine [OF Cons.prems(1) out this] obtain told where
    told: "health_step (clk tr1) ok (condition_of p) = (condition_of p1, told)"
      "told_as p told (drop (length (tr @ gap)) tr1)" by blast
  have "steady obs clk sink rest p1 tr1" using Cons.prems(2) one out by simp
  from Cons.IH [OF Cons.prems(1) this more] obtain tolds where
    "health_run history2 (condition_of p1) = (condition_of p2, tolds)" "list_all2 (told_as p) tolds added2"
    unfolding same by blast
  with Cons.prems(3) one out more told show ?case by (intro exI [of _ "told # tolds"]) auto
qed simp

text \<open>
  C14: The publisher is the machine it is meant to be: under every lawful clock that reads the same
  from each write to the end of what is done about it, any writes, accepted or refused, after anything
  that happened between, leave the publisher in the machine's condition, and each told exactly what the
  machine tells: one failure audited, of a refusal that has lasted a round, once; and, after such a
  one, the words that it publishes again.
\<close>

theorem publisher_refines_its_machine:
  assumes "lawful_clock clk" "steady obs clk sink ws p tr"
    and "write_spread obs clk sink ws p tr = (p', tr', added, history)"
  shows "\<exists>tolds. health_run history (condition_of p) = (condition_of p', tolds) \<and> list_all2 (told_as p) tolds added"
  using assms by (rule spread_machine)

text \<open>Refused, and refused a round later, which is audited.\<close>

theorem publisher_refines_its_machine_witness:
  "\<exists>p' tr' first second tolds.
     write_spread (plain_observe (Some ''held'')) logical_clock (\<lambda>_ _. None)
       [([], ''a''), ([Waited EVERY], ''b'')] plain_publisher []
     = (p', tr', [first, second], [(0, False), (EVERY, False)])
   \<and> condition_of p' = (Told_since 0, Some EVERY)
   \<and> failures first = [] \<and> failures second = [''publish'']"
proof -
  let ?obs = "plain_observe (Some ''held'')" and ?ws = "[([], ''a''), ([Waited EVERY], ''b'')]"
  let ?run = "write_spread ?obs logical_clock (\<lambda>_ _. None) ?ws plain_publisher []"
  note defs = plain_observe_def plain_publisher_def new_publisher_def write_out_def write_refused_def
    elapsed_since_def Let_def logical_clock_def fail_def kept_def EVERY_def
  have still: "steady ?obs logical_clock (\<lambda>_ _. None) ?ws plain_publisher []"
    by (simp add: defs)
  have run_is: "snd (snd (snd ?run)) = [(0, False), (EVERY, False)]" "length (fst (snd (snd ?run))) = 2"
    by (simp_all add: defs)
  obtain p' tr' added history where run: "?run = (p', tr', added, history)" by (metis prod_cases4)
  have history: "history = [(0, False), (EVERY, False)]" and "length added = 2"
    using run_is run by simp_all
  then obtain first second where added: "added = [first, second]"
    by (auto simp: numeral_2_eq_2 length_Suc_conv)
  have machine: "health_run history (condition_of plain_publisher)
      = ((Told_since 0, Some EVERY), [(False, False), (True, False)])"
    by (simp add: history condition_of_def health_of_def plain_publisher_def new_publisher_def)
  obtain tolds where "health_run history (condition_of plain_publisher) = (condition_of p', tolds)"
      "list_all2 (told_as plain_publisher) tolds added"
    using publisher_refines_its_machine [OF logical_clock_lawful still run] by blast
  then have "condition_of p' = (Told_since 0, Some EVERY) \<and> failures first = [] \<and> failures second = [''publish'']"
    using machine by (auto simp: added)
  with run show ?thesis unfolding history added by blast
qed

end
