(* ===== verification/Readiness.thy ===== *)
theory Readiness
  imports Built
begin

text \<open>
  \<open>readiness.rs\<close>: telling systemd that the node is ready and that it is stopping, one datagram each
  to the socket systemd named, on Linux only.  Building the socket's address and sending are the
  operating system's, a parameter that answers the words of its error.
\<close>

datatype socket_address = Abstract string | Pathname string

definition notify_address :: "string \<Rightarrow> socket_address" where
  "notify_address socket =
     (if starts_with socket ''@'' then Abstract (drop 1 socket) else Pathname socket)"

record notifier =
  notify_socket :: "string option"                \<comment> \<open>\<open>NOTIFY_SOCKET\<close> of the environment\<close>
  send_datagram :: "trace \<Rightarrow> socket_address \<Rightarrow> string \<Rightarrow> string option"

definition notify :: "platform \<Rightarrow> notifier \<Rightarrow> string \<Rightarrow> trace \<Rightarrow> trace" where
  "notify os systemd state tr =
     (if os \<noteq> Linux then tr
      else case notify_socket systemd of
        None \<Rightarrow> tr
      | Some socket \<Rightarrow>
          (case send_datagram systemd tr (notify_address socket) state of
             None \<Rightarrow> tr @ [Notified state]
           | Some error \<Rightarrow>
               tr @ [Eprintln (''xmip-service: could not tell systemd '' @ state @ '': '' @ error)]))"

definition ready :: "platform \<Rightarrow> notifier \<Rightarrow> trace \<Rightarrow> trace" where
  "ready os systemd tr = notify os systemd ''READY=1'' tr"

definition stopping :: "platform \<Rightarrow> notifier \<Rightarrow> trace \<Rightarrow> trace" where
  "stopping os systemd tr = notify os systemd ''STOPPING=1'' tr"

section \<open>Facts\<close>

lemma notify_marks:
  "\<exists>m \<in> {[], [Notified state]}. milestones (notify os systemd state t) = milestones t @ m"
  by (auto simp: notify_def split: option.splits)

lemma notify_prefix: "prefix t (notify os systemd state t)"
  by (auto simp: notify_def split: option.splits)

lemma notify_waits [simp]: "waits (notify os systemd state t) = waits t"
  by (auto simp: notify_def split: option.splits)

lemma notify_failures [simp]: "failures (notify os systemd state t) = failures t"
  by (auto simp: notify_def split: option.splits)

text \<open>Nothing is sent on another platform, or without a socket.\<close>

lemma notify_nowhere: "os \<noteq> Linux \<or> notify_socket systemd = None \<Longrightarrow> notify os systemd state t = t"
  by (auto simp: notify_def)

end
