(* ===== verification/Console.thy ===== *)
theory Console
  imports Lifecycle Readiness
begin

text \<open>
  \<open>console.rs\<close>: the stop that arrives as a signal, and, for a node a test started in a console, as
  the end of its input.  The handler is set before the node starts, or the run is refused.  What happens
  while the service waits, signals and the input's end among it, is the world's; what each sends is the
  handler's and the thread's, \<open>console_asks\<close>, and the service is told by the channel they send on.
\<close>

definition signal_name :: "mode \<Rightarrow> stopped_by" where
  "signal_name mode = (if mode = Console then ''the console'' else ''the service manager'')"

definition input_stops :: "arguments \<Rightarrow> bool" where
  "input_stops args \<longleftrightarrow> arg_mode args = Console \<and> arg_purpose args = Test"

text \<open>
  What the signal's handler sends, and the thread that reads the input: it is only where \<open>input_stops\<close>.
\<close>

datatype console_asking = Stop_signal | Input_end

definition console_asks :: "arguments \<Rightarrow> console_asking \<Rightarrow> told option" where
  "console_asks args asking =
     (case asking of
        Stop_signal \<Rightarrow> Some (Stop (signal_name (arg_mode args)))
      | Input_end \<Rightarrow> if input_stops args then Some (Stop ''its input ending'') else None)"

definition console_run ::
  "('r, 'policy, 'p, 'order, 'o, 'c) service_world \<Rightarrow> (trace \<Rightarrow> nat \<Rightarrow> console_asking happening list)
     \<Rightarrow> platform \<Rightarrow> notifier \<Rightarrow> (trace \<Rightarrow> string option) \<Rightarrow> string \<Rightarrow> arguments \<Rightarrow> nat \<Rightarrow> trace
     \<Rightarrow> (exit_code \<times> trace) option" where
  "console_run w happens os systemd set_handler program args fuel tr =
     (case set_handler tr of
        Some error \<Rightarrow>
          Some (REFUSED,
            fail (the_sink w) ''start'' (program @ '': cannot take the stop signal: '' @ error) tr)
      | None \<Rightarrow>
          (let tr1 = tr @ [Called ''set_handler'']
                 @ (if arg_mode args = Console
                    then [Println (program @ '': Ctrl+C stops the node'')] else [])
                 @ (if input_stops args
                    then [Called ''spawn'',
                          Println (program @ '': the end of its input stops the node, as its test ends it'')]
                    else [])
           in map_option (\<lambda>(e, tr2). (ended_code e, tr2))
                (serve (w\<lparr>the_receiver := channel (console_asks args) happens\<rparr>) program
                   (arg_configuration args) (arg_purpose args) (ready os systemd) (stopping os systemd)
                   fuel tr1)))"

section \<open>Who stops a console's run\<close>

lemma ended_code_eq [simp]:
  "ended_code e = SUCCESS \<longleftrightarrow> e = Stopped" "ended_code e = REFUSED \<longleftrightarrow> e = Ended_refused"
  by (cases e; simp add: ended_code_def)+

text \<open>
  C30: A console's or a service manager's run that exits 0 recorded who stopped it, by the first thing of
  its last wait that asks for a stop: a signal, as the console in a console and as the service manager
  otherwise; or the end of the input, where a test started it in a console and only there.
\<close>

theorem console_stopped_by:
  assumes "console_run w happens os systemd set_handler program args fuel tr = Some (SUCCESS, tr')"
  shows "\<exists>ps who heard within before asked after.
     Audited (Event ''stop'' Finished ps) \<in> set tr' \<and> map_of ps ''by'' = Some who
     \<and> prefix (heard @ [Waited within, Unwatched]) tr'
     \<and> happens heard within = before @ Asked asked # after
     \<and> (asked = Stop_signal \<and> who = (if arg_mode args = Console then ''the console'' else ''the service manager'')
        \<or> asked = Input_end \<and> arg_mode args = Console \<and> arg_purpose args = Test \<and> who = ''its input ending'')
     \<and> Asked Stop_signal \<notin> set before
     \<and> \<not> (arg_mode args = Console \<and> arg_purpose args = Test \<and> Asked Input_end \<in> set before)"
proof -
  let ?w = "w\<lparr>the_receiver := channel (console_asks args) happens\<rparr>"
  obtain t0 where run: "serve ?w program (arg_configuration args) (arg_purpose args)
      (ready os systemd) (stopping os systemd) fuel t0 = Some (Stopped, tr')"
    using assms by (auto simp: console_run_def Let_def split: option.splits)
  have "prefix t (stopping os systemd t)" for t unfolding stopping_def by (rule notify_prefix)
  moreover have "console_asks args e \<noteq> Some Orders \<and> console_asks args e \<noteq> Some Acted" for e
    by (cases e) (simp_all add: console_asks_def)
  ultimately obtain heard within who ps before asked after where stop:
    "prefix (heard @ [Waited within, Unwatched]) tr'" "Audited (Event ''stop'' Finished ps) \<in> set tr'"
    "map_of ps ''by'' = Some who" "happens heard within = before @ Asked asked # after"
    and asked: "console_asks args asked = Some (Stop who)" "\<forall>e. Asked e \<in> set before \<longrightarrow> console_asks args e = None"
    using run_stopped_by_asking [OF run] by metis
  have "asked = Stop_signal \<and> who = (if arg_mode args = Console then ''the console'' else ''the service manager'')
        \<or> asked = Input_end \<and> arg_mode args = Console \<and> arg_purpose args = Test \<and> who = ''its input ending''"
    using asked(1) by (cases asked) (auto simp: console_asks_def signal_name_def input_stops_def split: if_splits)
  moreover have "Asked Stop_signal \<notin> set before"
      "\<not> (arg_mode args = Console \<and> arg_purpose args = Test \<and> Asked Input_end \<in> set before)"
    using asked(2) by (auto simp: console_asks_def input_stops_def)
  ultimately show ?thesis using stop by blast
qed

text \<open>
  A console's run exits 0 having waited, or is refused before it waited for anything, with the failures
  that refuse a start.
\<close>

lemma console_codes:
  assumes "console_run w happens os systemd set_handler program args fuel tr = Some (code, tr')"
  shows "code = SUCCESS \<and> waits tr' \<noteq> waits tr
     \<or> code = REFUSED \<and> waits tr' = waits tr \<and> (\<exists>why \<in> set refusals. failures tr' = failures tr @ why)"
proof (cases "set_handler tr")
  case (Some error)
  then show ?thesis using assms by (auto simp: console_run_def refusals_def)
next
  case none: None
  let ?w = "w\<lparr>the_receiver := channel (console_asks args) happens\<rparr>"
  obtain e t0 where run: "serve ?w program (arg_configuration args) (arg_purpose args)
      (ready os systemd) (stopping os systemd) fuel t0 = Some (e, tr')" and code: "code = ended_code e"
      and t0: "failures t0 = failures tr" "waits t0 = waits tr"
    using assms none by (auto simp: console_run_def Let_def)
  show ?thesis
  proof (cases e)
    case Stopped
    obtain ws where "waits tr' = waits t0 @ ws" "ws \<noteq> []"
      using run_waits [OF _ _ run] Stopped by (auto simp: ready_def stopping_def)
    then show ?thesis using t0 code Stopped by (simp add: ended_code_def)
  next
    case Ended_refused
    from run_refused [OF run [unfolded Ended_refused]] t0 code Ended_refused show ?thesis by simp
  qed
qed

text \<open>What systemd is told, and when nothing is.\<close>

lemma ready_marks: "\<exists>m \<in> {[], [Notified ''READY=1'']}. milestones (ready os systemd t) = milestones t @ m"
  unfolding ready_def by (rule notify_marks)

lemma stopping_marks:
  "\<exists>m \<in> {[], [Notified ''STOPPING=1'']}. milestones (stopping os systemd t) = milestones t @ m"
  unfolding stopping_def by (rule notify_marks)

lemma notify_told:
  "os = Linux \<Longrightarrow> notify_socket systemd = Some socket \<Longrightarrow> (\<And>t to state. send_datagram systemd t to state = None) \<Longrightarrow>
     milestones (notify os systemd state t) = milestones t @ [Notified state]"
  by (simp add: notify_def)

lemma console_serves:
  assumes "console_run w happens os systemd set_handler program args fuel tr = Some (code, tr')"
  obtains (handler) "code = REFUSED" "milestones tr' = milestones tr"
  | (served) e t0 where "code = ended_code e" "milestones t0 = milestones tr"
    "serve (w\<lparr>the_receiver := channel (console_asks args) happens\<rparr>) program (arg_configuration args)
       (arg_purpose args) (ready os systemd) (stopping os systemd) fuel t0 = Some (e, tr')"
proof (cases "set_handler tr")
  case (Some error)
  then show ?thesis using assms handler by (auto simp: console_run_def)
next
  case None
  then obtain e t0 where "serve (w\<lparr>the_receiver := channel (console_asks args) happens\<rparr>) program
       (arg_configuration args) (arg_purpose args) (ready os systemd) (stopping os systemd) fuel t0
     = Some (e, tr')" "code = ended_code e" "milestones t0 = milestones tr"
    using assms by (auto simp: console_run_def Let_def)
  then show ?thesis using served by blast
qed

definition told_systemd :: "trace \<Rightarrow> string list" where
  "told_systemd tr = List.map_filter (\<lambda>e. case e of Notified state \<Rightarrow> Some state | _ \<Rightarrow> None) tr"

lemma told_systemd_append [simp]: "told_systemd (xs @ ys) = told_systemd xs @ told_systemd ys"
  by (simp add: told_systemd_def List.map_filter_def)

lemma told_systemd_simps [simp]:
  "told_systemd [] = []" "told_systemd (Notified state # es) = state # told_systemd es"
  "told_systemd (Started # es) = told_systemd es" "told_systemd (Watched place # es) = told_systemd es"
  "told_systemd (Unwatched # es) = told_systemd es" "told_systemd (Drained # es) = told_systemd es"
  "told_systemd (Declared pairs # es) = told_systemd es" "told_systemd (Undeclared # es) = told_systemd es"
  by (simp_all add: told_systemd_def List.map_filter_def)

lemma told_systemd_milestones: "told_systemd (milestones tr) = told_systemd tr"
proof (induction tr)
  case (Cons e tr)
  then show ?case by (cases e) (simp_all add: told_systemd_def List.map_filter_def)
qed simp

lemma told_systemd_eq: "milestones tr' = milestones tr @ es \<Longrightarrow> told_systemd tr' = told_systemd tr @ told_systemd es"
  by (metis told_systemd_append told_systemd_milestones)

text \<open>
  C31: systemd is told in order.  A run that is refused tells systemd nothing; one that stops tells it
  at most that it is ready and then that it is stopping; and where systemd named a socket and takes
  each datagram it is told both, ready once the node serves and stopping before it drains.
\<close>

theorem systemd_is_told_in_order:
  assumes "console_run w happens os systemd set_handler program args fuel tr = Some (code, tr')"
  shows "(code = REFUSED \<longrightarrow> told_systemd tr' = told_systemd tr)
     \<and> (\<exists>states. subseq states [''READY=1'', ''STOPPING=1''] \<and> told_systemd tr' = told_systemd tr @ states)
     \<and> (code = SUCCESS \<and> os = Linux \<and> notify_socket systemd \<noteq> None
          \<and> (\<forall>t to state. send_datagram systemd t to state = None) \<longrightarrow>
        (\<exists>place declares undeclares. milestones tr' = milestones tr @ [Started, Watched place] @ declares
           @ [Notified ''READY=1'', Unwatched, Notified ''STOPPING=1'', Drained] @ undeclares))"
  using assms
proof (cases rule: console_serves)
  case handler
  have "told_systemd tr' = told_systemd tr" using told_systemd_eq [of tr' tr "[]"] handler(2) by simp
  then show ?thesis using handler(1) by auto
next
  case (served e t0)
  show ?thesis
  proof (intro conjI impI)
    note life = life_in_order [OF ready_marks stopping_marks served(3)]
    show "told_systemd tr' = told_systemd tr" if "code = REFUSED"
    proof -
      have "e = Ended_refused" using that served(1) by simp
      with life have "\<exists>es. milestones tr' = milestones tr @ es \<and> told_systemd es = []"
        by (auto simp: served(2))
      then show ?thesis by (auto dest: told_systemd_eq)
    qed
    have "\<exists>es. milestones tr' = milestones tr @ es \<and> subseq (told_systemd es) [''READY=1'', ''STOPPING=1'']"
      using life by (auto simp: served(2))
    then show "\<exists>states. subseq states [''READY=1'', ''STOPPING=1'']
        \<and> told_systemd tr' = told_systemd tr @ states"
      using told_systemd_eq by blast
    assume told: "code = SUCCESS \<and> os = Linux \<and> notify_socket systemd \<noteq> None
          \<and> (\<forall>t to state. send_datagram systemd t to state = None)"
    then have "\<exists>m \<in> {[Notified ''READY=1'']}. milestones (ready os systemd t) = milestones t @ m"
        "\<exists>m \<in> {[Notified ''STOPPING=1'']}. milestones (stopping os systemd t) = milestones t @ m" for t
      by (auto simp: ready_def stopping_def notify_told)
    note sure = life_in_order [OF this served(3)]
    have "e = Stopped" using told served(1) by simp
    with sure show "\<exists>place declares undeclares. milestones tr' =
        milestones tr @ [Started, Watched place] @ declares
          @ [Notified ''READY=1'', Unwatched, Notified ''STOPPING=1'', Drained] @ undeclares"
      by (auto simp: served(2)) (metis append_Nil append_Cons)+
  qed
qed

lemma console_settles [settling]:
  "settles (\<lambda>fuel. console_run w happens os systemd set_handler program args fuel tr)"
proof (cases "set_handler tr")
  case None
  then show ?thesis by (simp add: console_run_def Let_def settles_map serve_settles)
qed (simp add: console_run_def settles_const)

lemma console_ends:
  assumes "lawful_clock (the_clock w)"
    and "\<And>t within. n \<le> length (waits t) \<Longrightarrow> tells_stop (channel (console_asks args) happens t within)"
      "n < fuel"
  shows "\<exists>r. console_run w happens os systemd set_handler program args fuel tr = Some r"
proof -
  have "console_run w happens os systemd set_handler program args fuel tr \<noteq> None"
    using serve_returns [of "w\<lparr>the_receiver := channel (console_asks args) happens\<rparr>", OF _ _ assms(3)] assms(1,2)
    by (simp add: console_run_def Let_def del: not_None_eq split: option.split)
  then show ?thesis by blast
qed

section \<open>A console's run\<close>

definition console_args :: arguments where
  "console_args =
     \<lparr>arg_configuration = ''ok'', arg_mode = Console, arg_purpose = Test, arg_node = None,
      arg_cluster = None, arg_account = None, arg_bind = None, arg_nodes = [], arg_authority = None\<rparr>"

definition no_notifier :: notifier where
  "no_notifier = \<lparr>notify_socket = None, send_datagram = \<lambda>_ _ _. None\<rparr>"

text \<open>An order and an act at the first wait, and then the input's end and a signal at once.\<close>

definition plain_happens :: "trace \<Rightarrow> nat \<Rightarrow> console_asking happening list" where
  "plain_happens tr within =
     (if waits tr = [] then [Place_changed, Act_taken] else [Asked Input_end, Asked Stop_signal])"

lemma plain_happens_tells:
  "1 \<le> length (waits t) \<Longrightarrow> tells_stop (channel (console_asks args) plain_happens t within)"
  by (cases "waits t")
     (simp_all add: channel_def plain_happens_def sends_def console_asks_def tells_stop_def List.map_filter_simps)

lemma console_plain_run:
  "\<exists>tr'. console_run plain_world plain_happens Linux systemd (\<lambda>_. None) ''xmip'' console_args 2 [] = Some (SUCCESS, tr')"
proof -
  let ?lines = "[Called ''set_handler'', Println ''xmip: Ctrl+C stops the node'', Called ''spawn'',
    Println ''xmip: the end of its input stops the node, as its test ends it'']"
  let ?w = "plain_world\<lparr>the_receiver := channel (console_asks console_args) plain_happens\<rparr>"
  have "\<exists>tr'. serve ?w ''xmip'' ''ok'' Test (ready Linux systemd) (stopping Linux systemd) (Suc 1) ?lines
    = Some (case fst (prepare ?w ''xmip'' ''ok'' ?lines) of
              None \<Rightarrow> Ended_refused | Some _ \<Rightarrow> Stopped, tr')"
    by (rule serve_ends_once_told [where n = 1]) (simp_all add: plain_clock plain_happens_tells)
  then show ?thesis
    using plain_prepares [of ?lines]
    by (auto simp: console_run_def console_args_def input_stops_def ended_code_def numeral_2_eq_2
        split: option.splits)
qed

theorem console_stopped_by_witness:
  "\<exists>tr' ps. console_run plain_world plain_happens Linux no_notifier (\<lambda>_. None) ''xmip'' console_args 2 []
       = Some (SUCCESS, tr')
     \<and> Audited (Event ''stop'' Finished ps) \<in> set tr' \<and> map_of ps ''by'' = Some ''its input ending''"
proof -
  obtain tr' where run: "console_run plain_world plain_happens Linux no_notifier (\<lambda>_. None) ''xmip'' console_args
      2 [] = Some (SUCCESS, tr')" using console_plain_run by blast
  obtain ps who heard within before asked after where stop:
    "Audited (Event ''stop'' Finished ps) \<in> set tr'" "map_of ps ''by'' = Some who"
    "plain_happens heard within = before @ Asked asked # after"
    "asked = Stop_signal \<and> who = ''the console'' \<or> asked = Input_end \<and> who = ''its input ending''"
    "Asked Input_end \<notin> set before"
    using console_stopped_by [OF run] by (auto simp: console_args_def)
  have "who = ''its input ending''"
    using stop(3-5) by (auto simp: plain_happens_def Cons_eq_append_conv append_eq_Cons_conv split: if_splits)
  with run stop(1,2) show ?thesis by blast
qed

theorem systemd_is_told_in_order_witness:
  "\<exists>tr' place declares undeclares.
     console_run plain_world plain_happens Linux \<lparr>notify_socket = Some ''/run/notify'', send_datagram = \<lambda>_ _ _. None\<rparr>
       (\<lambda>_. None) ''xmip'' console_args 2 [] = Some (SUCCESS, tr')
     \<and> milestones tr' = [Started, Watched place] @ declares
         @ [Notified ''READY=1'', Unwatched, Notified ''STOPPING=1'', Drained] @ undeclares"
proof -
  let ?systemd = "\<lparr>notify_socket = Some ''/run/notify'', send_datagram = \<lambda>_ _ _. None\<rparr>"
  obtain tr' where run: "console_run plain_world plain_happens Linux ?systemd (\<lambda>_. None) ''xmip'' console_args 2 []
      = Some (SUCCESS, tr')" using console_plain_run by blast
  from systemd_is_told_in_order [OF run] run show ?thesis by auto
qed

end
