(* ===== verification/Control_Manager.thy ===== *)
theory Control_Manager
  imports Console
begin

text \<open>
  \<open>control_manager.rs\<close>: the service under the Windows Service Control Manager: what each control is
  answered with and what it sends, the statuses it reports around the run, and the exit code the process leaves.  The
  two \<open>OnceLock\<close>s are the state; registering a handler, setting a status and the dispatcher are
  \<open>windows_service\<close>'s, parameters.  The statuses reported are shown to be a run of the manager's
  own state machine, given as a step relation.
\<close>

section \<open>Controls\<close>

datatype handled = No_error | Not_implemented

text \<open>What is sent to the service, and what the manager is answered.\<close>

definition answer :: "service_control \<Rightarrow> told option \<times> handled" where
  "answer control =
     (case control of
        Stop_control \<Rightarrow> (Some (Stop ''the Service Control Manager''), No_error)
      | Shutdown_control \<Rightarrow> (Some (Stop ''the system shutting down''), No_error)
      | Interrogate_control \<Rightarrow> (None, No_error)
      | Other_control \<Rightarrow> (None, Not_implemented))"

section \<open>State\<close>

text \<open>A \<open>OnceLock\<close> keeps the first value it is set to.\<close>

definition set_once :: "'a option \<Rightarrow> 'a \<Rightarrow> 'a option" where
  "set_once cell x = (case cell of None \<Rightarrow> Some x | Some _ \<Rightarrow> cell)"

record process_cells =
  told_cell :: "(string \<times> arguments) option"
  ended_cell :: "exit_code option"

definition PROGRAM :: string where
  "PROGRAM = ''xmip-service''"

text \<open>How many seconds the manager is told to wait.\<close>

definition WAIT :: nat where
  "WAIT = 30"

section \<open>Reporting\<close>

text \<open>
  The library: the handler registered, or why not; a status set, or why not; and the dispatcher,
  which could not start, or returns once the service's main it called has, or without having called
  it.
\<close>

record manager_api =
  register_handler :: "trace \<Rightarrow> string option"
  set_status :: "trace \<Rightarrow> service_status \<Rightarrow> string option"
  dispatch :: "trace \<Rightarrow> bool outcome"

definition debug_state :: "service_state \<Rightarrow> string" where
  "debug_state state =
     (case state of
        Start_pending \<Rightarrow> ''StartPending''
      | Running_state \<Rightarrow> ''Running''
      | Stop_pending \<Rightarrow> ''StopPending''
      | Stopped_state \<Rightarrow> ''Stopped'')"

definition status_of :: "service_state \<Rightarrow> service_control list \<Rightarrow> exit_code \<Rightarrow> service_status" where
  "status_of state accepted code =
     \<lparr>current_state = state, controls_accepted = accepted,
      service_exit_code = (if code = 0 then Win32 0 else Service_specific (unat code)),
      wait_hint = WAIT\<rparr>"

definition report ::
  "manager_api \<Rightarrow> string \<Rightarrow> service_state \<Rightarrow> service_control list \<Rightarrow> exit_code \<Rightarrow> trace \<Rightarrow> trace" where
  "report api program state accepted code tr =
     (let status = status_of state accepted code; tr1 = tr @ [Reported status]
      in case set_status api tr status of
           None \<Rightarrow> tr1
         | Some error \<Rightarrow>
             tr1 @ [Eprintln (program @ '': could not report '' @ debug_state state @ '': '' @ error)])"

section \<open>The service's main\<close>

definition manager_serve ::
  "('r, 'policy, 'p, 'order, 'o, 'c) service_world
     \<Rightarrow> (trace \<Rightarrow> nat \<Rightarrow> service_control happening list) \<Rightarrow> manager_api \<Rightarrow> string \<Rightarrow> arguments \<Rightarrow> nat
     \<Rightarrow> exit_code option \<Rightarrow> trace \<Rightarrow> (exit_code option \<times> trace) option" where
  "manager_serve w happens api program args fuel cell tr =
     (case register_handler api tr of
        Some error \<Rightarrow>
          Some (set_once cell REFUSED,
            fail (the_sink w) ''start'' (program @ '': cannot take the manager's controls: '' @ error) tr)
      | None \<Rightarrow>
          map_option (\<lambda>(e, tr1).
              (let code = (case e of Stopped \<Rightarrow> 0 | Ended_refused \<Rightarrow> REFUSED)
               in (set_once cell code, report api program Stopped_state [] code tr1)))
            (serve (w\<lparr>the_receiver := channel (\<lambda>control. fst (answer control)) happens\<rparr>) program
               (arg_configuration args) (arg_purpose args)
               (report api program Running_state [Stop_control, Shutdown_control] 0)
               (report api program Stop_pending [] 0) fuel
               (report api program Start_pending [] 0 tr)))"

text \<open>The main the dispatcher calls reads what \<open>run\<close> left it.\<close>

definition service_main ::
  "('r, 'policy, 'p, 'order, 'o, 'c) service_world
     \<Rightarrow> (trace \<Rightarrow> nat \<Rightarrow> service_control happening list) \<Rightarrow> manager_api \<Rightarrow> nat \<Rightarrow> process_cells \<Rightarrow> trace
     \<Rightarrow> (process_cells \<times> trace) option" where
  "service_main w happens api fuel cells tr =
     (case told_cell cells of
        None \<Rightarrow> Some (cells, tr)
      | Some (program, args) \<Rightarrow>
          map_option (\<lambda>(cell, tr1). (cells\<lparr>ended_cell := cell\<rparr>, tr1))
            (manager_serve w happens api program args fuel (ended_cell cells) tr))"

definition manager_run ::
  "('r, 'policy, 'p, 'order, 'o, 'c) service_world
     \<Rightarrow> (trace \<Rightarrow> nat \<Rightarrow> service_control happening list) \<Rightarrow> manager_api \<Rightarrow> string \<Rightarrow> arguments \<Rightarrow> nat
     \<Rightarrow> process_cells \<Rightarrow> trace \<Rightarrow> (exit_code \<times> process_cells \<times> trace) option" where
  "manager_run w happens api program args fuel cells0 tr =
     (let cells = cells0\<lparr>told_cell := set_once (told_cell cells0) (program, args)\<rparr>
      in case dispatch api tr of
           Inr main_called \<Rightarrow>
             map_option (\<lambda>(cells', tr').
                 ((case ended_cell cells' of None \<Rightarrow> 0 | Some code \<Rightarrow> code), cells', tr'))
               (if main_called then service_main w happens api fuel cells tr else Some (cells, tr))
         | Inl error \<Rightarrow>
             Some (REFUSED, cells,
               (case told_cell cells of
                  None \<Rightarrow> tr
                | Some (told_program, _) \<Rightarrow>
                    fail (the_sink w) ''start''
                      (told_program @ '': the Service Control Manager did not start it ('' @ error
                       @ ''); --console runs it in a terminal'') tr)))"

definition fresh_cells :: process_cells where
  "fresh_cells = \<lparr>told_cell = None, ended_cell = None\<rparr>"

section \<open>The manager's state machine\<close>

text \<open>
  What the manager lets a service report after what it last reported: a service takes controls only
  while it runs, and stops with the exit code of a drain or of a refusal.
\<close>

inductive manager_step :: "service_status option \<Rightarrow> service_status \<Rightarrow> bool" where
  starting: "current_state st = Start_pending \<Longrightarrow> controls_accepted st = [] \<Longrightarrow> manager_step None st"
| running: "current_state was = Start_pending \<Longrightarrow> current_state st = Running_state \<Longrightarrow>
    manager_step (Some was) st"
| stopping: "current_state was = Running_state \<Longrightarrow> current_state st = Stop_pending \<Longrightarrow>
    controls_accepted st = [] \<Longrightarrow> manager_step (Some was) st"
| stopped: "current_state was = Stop_pending \<Longrightarrow> current_state st = Stopped_state \<Longrightarrow>
    controls_accepted st = [] \<Longrightarrow> service_exit_code st = Win32 0 \<Longrightarrow> manager_step (Some was) st"
| refused: "current_state was = Start_pending \<Longrightarrow> current_state st = Stopped_state \<Longrightarrow>
    controls_accepted st = [] \<Longrightarrow> service_exit_code st = Service_specific code \<Longrightarrow> code \<noteq> 0 \<Longrightarrow>
    manager_step (Some was) st"

inductive_simps manager_first [simp]: "manager_step None st"
inductive_simps manager_next [simp]: "manager_step (Some was) st"

text \<open>The statuses a service reports one after another, from one reported before or none.\<close>

inductive manager_reports :: "service_status option \<Rightarrow> service_status list \<Rightarrow> bool" where
  none: "manager_reports was []"
| more: "manager_step was st \<Longrightarrow> manager_reports (Some st) sts \<Longrightarrow> manager_reports was (st # sts)"

inductive_simps manager_reports_simps [simp]: "manager_reports was []" "manager_reports was (st # sts)"
inductive_cases manager_reports_elim: "manager_reports was (st # sts)"

text \<open>Whatever is reported, controls are taken only while the service runs, and nothing follows a stop.\<close>

lemma controls_only_while_running:
  "manager_reports was sts \<Longrightarrow> st \<in> set sts \<Longrightarrow> controls_accepted st \<noteq> [] \<Longrightarrow>
     current_state st = Running_state"
  by (induction rule: manager_reports.induct) (auto elim: manager_step.cases)

lemma nothing_after_stopped:
  "manager_reports was sts \<Longrightarrow> was = Some st \<Longrightarrow> current_state st = Stopped_state \<Longrightarrow> sts = []"
  by (induction rule: manager_reports.induct) auto

lemma stopped_is_last:
  "manager_reports was (before @ st # after) \<Longrightarrow> current_state st = Stopped_state \<Longrightarrow> after = []"
proof (induction before arbitrary: was)
  case Nil
  then have "manager_reports (Some st) after" by (auto elim: manager_reports_elim)
  then show ?case using Nil.prems(2) nothing_after_stopped by blast
next
  case (Cons b before)
  then show ?case by (auto elim: manager_reports_elim)
qed

section \<open>What the service reports\<close>

definition reported :: "trace \<Rightarrow> service_status list" where
  "reported tr = List.map_filter (\<lambda>e. case e of Reported st \<Rightarrow> Some st | _ \<Rightarrow> None) tr"

lemma reported_append [simp]: "reported (xs @ ys) = reported xs @ reported ys"
  by (simp add: reported_def List.map_filter_def)

lemma reported_simps [simp]:
  "reported [] = []" "reported (Reported st # es) = st # reported es"
  "reported (Eprintln text # es) = reported es"
  "reported (Audited entry # es) = reported es"
  "reported (Started # es) = reported es" "reported (Watched place # es) = reported es"
  "reported (Unwatched # es) = reported es" "reported (Drained # es) = reported es"
  "reported (Declared pairs # es) = reported es" "reported (Undeclared # es) = reported es"
  by (simp_all add: reported_def List.map_filter_def)

lemma reported_milestones: "reported (milestones tr) = reported tr"
proof (induction tr)
  case (Cons e tr)
  then show ?case
    by (cases e) (simp_all add: reported_def List.map_filter_def)
qed simp

lemma report_marks:
  "\<exists>m \<in> {[Reported (status_of state accepted code)]}.
     milestones (report api program state accepted code t) = milestones t @ m"
  by (simp add: report_def Let_def split: option.splits)

lemma report_reported [simp]:
  "reported (report api program state accepted code t) = reported t @ [status_of state accepted code]"
  by (simp add: report_def Let_def split: option.splits)

lemma report_failures [simp]: "failures (report api program state accepted code t) = failures t"
  by (simp add: report_def Let_def split: option.splits)

lemma report_waits [simp]: "waits (report api program state accepted code t) = waits t"
  by (simp add: report_def Let_def split: option.splits)

lemma reported_fail [simp]: "reported (fail sink action problem tr) = reported tr"
  by (simp add: fail_def kept_def Let_def split: option.splits)

lemma manager_serve_reports:
  assumes "register_handler api tr = None"
    and "manager_serve w happens api program args fuel cell tr = Some (cell', tr')"
  shows "\<exists>code. cell' = set_once cell code
     \<and> (code = SUCCESS \<and> reported tr' = reported tr @
            [status_of Start_pending [] 0, status_of Running_state [Stop_control, Shutdown_control] 0,
             status_of Stop_pending [] 0, status_of Stopped_state [] 0]
        \<or> code = REFUSED \<and> reported tr' = reported tr @
            [status_of Start_pending [] 0, status_of Stopped_state [] REFUSED])"
proof -
  let ?t0 = "report api program Start_pending [] 0 tr"
  obtain e tr1 where run: "serve (w\<lparr>the_receiver := channel (\<lambda>control. fst (answer control)) happens\<rparr>) program
      (arg_configuration args) (arg_purpose args)
      (report api program Running_state [Stop_control, Shutdown_control] 0)
      (report api program Stop_pending [] 0) fuel ?t0 = Some (e, tr1)"
    and out: "(cell', tr') = (let code = (case e of Stopped \<Rightarrow> 0 | Ended_refused \<Rightarrow> REFUSED)
                in (set_once cell code, report api program Stopped_state [] code tr1))"
    using assms by (auto simp: manager_serve_def)
  note life = life_in_order [OF report_marks report_marks run]
  show ?thesis
  proof (cases e)
    case Stopped
    with life have "reported (milestones tr1) = reported (milestones ?t0)
        @ [status_of Running_state [Stop_control, Shutdown_control] 0, status_of Stop_pending [] 0]"
      by auto
    then show ?thesis
      using out Stopped by (auto simp: reported_milestones SUCCESS_def)
  next
    case Ended_refused
    with life have "reported (milestones tr1) = reported (milestones ?t0)" by auto
    then show ?thesis
      using out Ended_refused by (auto simp: reported_milestones)
  qed
qed

lemma status_simps [simp]:
  "current_state (status_of state accepted code) = state"
  "controls_accepted (status_of state accepted code) = accepted"
  "service_exit_code (status_of state accepted 0) = Win32 0"
  by (simp_all add: status_of_def)

lemma status_refused [simp]: "service_exit_code (status_of state accepted REFUSED) = Service_specific 2"
  by (simp add: status_of_def REFUSED_def)

lemma refused_code [simp]: "REFUSED \<noteq> 0" "unat REFUSED = 2"
  by (simp_all add: REFUSED_def)

section \<open>Properties\<close>

text \<open>
  C7: Under the Service Control Manager what the service reports is a run of the manager's own state
  machine that ends stopped: start pending, running once the node accepts work, stop pending while
  it drains, and stopped with exit code 0; or start pending and stopped with \<open>REFUSED\<close> as its
  service-specific code.  The process exits with the code it reported.
\<close>

theorem manager_reports_its_states:
  assumes "register_handler api tr = None" "dispatch api tr = Inr True"
    and "manager_run w happens api program args fuel fresh_cells tr = Some (code, cells, tr')"
  shows "\<exists>sts. reported tr' = reported tr @ sts \<and> manager_reports None sts \<and> sts \<noteq> []
     \<and> current_state (last sts) = Stopped_state \<and> code \<in> {SUCCESS, REFUSED}
     \<and> service_exit_code (last sts) = (if code = SUCCESS then Win32 0 else Service_specific (unat code))"
proof -
  obtain cell where run: "manager_serve w happens api program args fuel None tr = Some (cell, tr')"
    and code: "code = (case cell of None \<Rightarrow> 0 | Some code \<Rightarrow> code)"
    using assms(2,3)
    by (auto simp: manager_run_def service_main_def fresh_cells_def set_once_def split: option.splits)
  from manager_serve_reports [OF assms(1) run] code show ?thesis
    by (auto simp: set_once_def SUCCESS_def)
qed

text \<open>
  The controls a service takes are answered as its status said: a Stop or a Shutdown, which it
  takes while it runs, asks for the drain once in its own name; an Interrogate is answered and asks
  for nothing; and nothing else is implemented or stops the node.
\<close>

lemma answer_asks_for_the_drain:
  "(snd (answer control) = Not_implemented \<longleftrightarrow> control = Other_control)
   \<and> (\<exists>by. fst (answer control) = Some (Stop by))
       = (control \<in> set (controls_accepted (status_of Running_state [Stop_control, Shutdown_control] 0)))
   \<and> fst (answer control) \<notin> {Some Orders, Some Acted}
   \<and> fst (answer Stop_control) \<noteq> fst (answer Shutdown_control)"
  by (cases control) (simp_all add: answer_def)

lemma report_prefix: "prefix t (report api program state accepted code t)"
  by (simp add: report_def Let_def split: option.splits)

lemma report_keeps: "e \<in> set t \<Longrightarrow> e \<in> set (report api program state accepted code t)"
  by (simp add: report_def Let_def split: option.splits)

text \<open>A run the manager started and whose controls were taken is a run of \<open>serve\<close>, and its report.\<close>

lemma managed_served:
  assumes "register_handler api tr = None" "dispatch api tr = Inr True"
    and "manager_run w happens api program args fuel fresh_cells tr = Some (code, cells, tr')"
  obtains e tr1 where "serve (w\<lparr>the_receiver := channel (\<lambda>control. fst (answer control)) happens\<rparr>) program
       (arg_configuration args) (arg_purpose args)
       (report api program Running_state [Stop_control, Shutdown_control] 0)
       (report api program Stop_pending [] 0) fuel (report api program Start_pending [] 0 tr) = Some (e, tr1)"
    "code = (case e of Stopped \<Rightarrow> SUCCESS | Ended_refused \<Rightarrow> REFUSED)"
    "tr' = report api program Stopped_state [] code tr1"
proof -
  obtain cell where run: "manager_serve w happens api program args fuel None tr = Some (cell, tr')"
    and code: "code = (case cell of None \<Rightarrow> 0 | Some code \<Rightarrow> code)"
    using assms(2,3)
    by (auto simp: manager_run_def service_main_def fresh_cells_def set_once_def split: option.splits)
  obtain e tr1 where served: "serve (w\<lparr>the_receiver := channel (\<lambda>control. fst (answer control)) happens\<rparr>) program
      (arg_configuration args) (arg_purpose args)
      (report api program Running_state [Stop_control, Shutdown_control] 0)
      (report api program Stop_pending [] 0) fuel (report api program Start_pending [] 0 tr) = Some (e, tr1)"
    and out: "(cell, tr') = (let code = (case e of Stopped \<Rightarrow> 0 | Ended_refused \<Rightarrow> REFUSED)
            in (set_once None code, report api program Stopped_state [] code tr1))"
    using run assms(1) by (auto simp: manager_serve_def)
  have "code = (case e of Stopped \<Rightarrow> SUCCESS | Ended_refused \<Rightarrow> REFUSED)"
      "tr' = report api program Stopped_state [] code tr1"
    using out code by (cases e; simp add: set_once_def SUCCESS_def)+
  with served show ?thesis by (rule that)
qed

text \<open>
  C32: Under the Service Control Manager a run that exits 0 is one of two.  Either the dispatcher returned
  without calling the service's main, and nothing was done at all; or the service recorded who stopped
  it, by the first of the manager's controls at its last wait that asks for the drain: a Stop, as the
  Service Control Manager, or a Shutdown, as the system shutting down, and it is a control that the
  status the service had reported as running said it takes.
\<close>

theorem manager_stopped_by:
  assumes "manager_run w happens api program args fuel fresh_cells tr = Some (SUCCESS, cells, tr')"
  shows "dispatch api tr = Inr False \<and> tr' = tr
     \<or> dispatch api tr = Inr True \<and> (\<exists>ps who heard within before control after st.
         Audited (Event ''stop'' Finished ps) \<in> set tr' \<and> map_of ps ''by'' = Some who
         \<and> prefix (heard @ [Waited within, Unwatched]) tr'
         \<and> happens heard within = before @ Asked control # after
         \<and> (control = Stop_control \<and> who = ''the Service Control Manager''
            \<or> control = Shutdown_control \<and> who = ''the system shutting down'')
         \<and> Asked Stop_control \<notin> set before \<and> Asked Shutdown_control \<notin> set before
         \<and> Reported st \<in> set heard \<and> current_state st = Running_state
         \<and> control \<in> set (controls_accepted st))"
proof (cases "dispatch api tr = Inr False")
  case True
  then show ?thesis using assms by (simp add: manager_run_def Let_def)
next
  case False
  have called: "dispatch api tr = Inr True" "register_handler api tr = None"
    using assms False
    by (auto simp: manager_run_def service_main_def manager_serve_def fresh_cells_def set_once_def Let_def
        split: sum.splits if_splits option.splits)
  from called(2,1) assms obtain e tr1 where served: "serve (w\<lparr>the_receiver := channel (\<lambda>control. fst (answer control)) happens\<rparr>)
       program (arg_configuration args) (arg_purpose args)
       (report api program Running_state [Stop_control, Shutdown_control] 0)
       (report api program Stop_pending [] 0) fuel (report api program Start_pending [] 0 tr) = Some (e, tr1)"
    and e: "SUCCESS = (case e of Stopped \<Rightarrow> SUCCESS | Ended_refused \<Rightarrow> REFUSED)"
    and tr': "tr' = report api program Stopped_state [] SUCCESS tr1"
    by (rule managed_served)
  have "e = Stopped" using e by (cases e) simp_all
  have "fst (answer c) \<noteq> Some Orders \<and> fst (answer c) \<noteq> Some Acted" for c
    by (cases c) (simp_all add: answer_def)
  from run_stopped_by_asking [OF served [unfolded \<open>e = Stopped\<close>] report_prefix this]
  obtain begun heard within who ps before control after where
    begun: "prefix (report api program Running_state [Stop_control, Shutdown_control] 0 begun) heard"
    and stop: "prefix (heard @ [Waited within, Unwatched]) tr1" "Audited (Event ''stop'' Finished ps) \<in> set tr1"
      "map_of ps ''by'' = Some who" "happens heard within = before @ Asked control # after"
    and asked: "fst (answer control) = Some (Stop who)" "\<forall>c. Asked c \<in> set before \<longrightarrow> fst (answer c) = None"
    by metis
  have "prefix (heard @ [Waited within, Unwatched]) tr'" "Audited (Event ''stop'' Finished ps) \<in> set tr'"
    unfolding tr' using stop(1,2) report_prefix report_keeps by (blast intro: prefix_order.trans)+
  moreover have "Reported (status_of Running_state [Stop_control, Shutdown_control] 0) \<in> set heard"
    using begun [THEN set_mono_prefix] by (auto simp: report_def Let_def split: option.splits)
  moreover have who: "control = Stop_control \<and> who = ''the Service Control Manager''
      \<or> control = Shutdown_control \<and> who = ''the system shutting down''"
    using asked(1) by (cases control) (simp_all add: answer_def)
  moreover from who have "control \<in> set (controls_accepted (status_of Running_state [Stop_control, Shutdown_control] 0))"
    by auto
  moreover have "Asked Stop_control \<notin> set before" "Asked Shutdown_control \<notin> set before"
    using asked(2) by (auto simp: answer_def)
  ultimately show ?thesis using called(1) stop(3,4) status_simps(1) by blast
qed

text \<open>
  The process exits 0 only where the service drained, or the dispatcher returned without calling
  its main; it exits \<open>REFUSED\<close> where the manager did not start it, where its controls could not be
  taken, and where the node was refused, each audited as one failure of its start or the failures
  that refuse it.
\<close>

lemma managed_codes:
  assumes "manager_run w happens api program args fuel fresh_cells tr = Some (code, cells, tr')"
  shows "code \<in> {SUCCESS, REFUSED}
     \<and> (code = REFUSED \<longrightarrow> (\<exists>why \<in> set refusals. failures tr' = failures tr @ why))"
proof (cases "dispatch api tr")
  case (Inl error)
  then show ?thesis
    using assms by (auto simp: manager_run_def fresh_cells_def set_once_def refusals_def)
next
  case dispatched: (Inr called)
  show ?thesis
  proof (cases called)
    case False
    then show ?thesis
      using assms dispatched by (auto simp: manager_run_def fresh_cells_def SUCCESS_def REFUSED_def)
  next
    case True
    show ?thesis
    proof (cases "register_handler api tr")
      case (Some error)
      then show ?thesis
        using assms dispatched True
        by (auto simp: manager_run_def service_main_def manager_serve_def fresh_cells_def set_once_def
            refusals_def)
    next
      case None
      have "dispatch api tr = Inr True" using dispatched True by simp
      from None this assms obtain e tr1 where
        served: "serve (w\<lparr>the_receiver := channel (\<lambda>control. fst (answer control)) happens\<rparr>) program
          (arg_configuration args) (arg_purpose args)
          (report api program Running_state [Stop_control, Shutdown_control] 0)
          (report api program Stop_pending [] 0) fuel (report api program Start_pending [] 0 tr) = Some (e, tr1)"
        and out: "code = (case e of Stopped \<Rightarrow> SUCCESS | Ended_refused \<Rightarrow> REFUSED)"
          "tr' = report api program Stopped_state [] code tr1"
        by (rule managed_served)
      show ?thesis
      proof (cases e)
        case Stopped
        then show ?thesis using out by simp
      next
        case Ended_refused
        from run_refused [OF served [unfolded Ended_refused]] out Ended_refused show ?thesis by simp
      qed
    qed
  qed
qed

lemma manager_serve_settles [settling]: "settles (\<lambda>fuel. manager_serve w happens api program args fuel cell tr)"
  by (cases "register_handler api tr")
     (simp_all add: manager_serve_def settles_const settles_map serve_settles)

lemma service_main_settles [settling]: "settles (\<lambda>fuel. service_main w happens api fuel cells tr)"
  by (cases "told_cell cells")
     (auto simp: service_main_def settles_const settles_map manager_serve_settles)

lemma manager_run_settles [settling]: "settles (\<lambda>fuel. manager_run w happens api program args fuel cells0 tr)"
proof (cases "dispatch api tr")
  case (Inr main_called)
  then show ?thesis
    by (cases main_called)
       (simp_all add: manager_run_def Let_def settles_const settles_map service_main_settles)
qed (simp add: manager_run_def Let_def settles_const)

lemma managed_ends:
  assumes "lawful_clock (the_clock w)"
    and "\<And>t within. n \<le> length (waits t) \<Longrightarrow> 
      tells_stop (channel (\<lambda>control. fst (answer control)) happens t within)" "n < fuel"
  shows "\<exists>r. manager_run w happens api program args fuel fresh_cells tr = Some r"
proof -
  have "manager_serve w happens api program args fuel None tr \<noteq> None"
    using serve_returns [of "w\<lparr>the_receiver := channel (\<lambda>control. fst (answer control)) happens\<rparr>", OF _ _ assms(3)]
      assms(1,2)
    by (simp add: manager_serve_def del: not_None_eq split: option.split)
  then show ?thesis
    by (cases "dispatch api tr")
       (auto simp: manager_run_def service_main_def fresh_cells_def set_once_def Let_def)
qed

section \<open>A managed run\<close>

definition willing_manager :: manager_api where
  "willing_manager = \<lparr>register_handler = \<lambda>_. None, set_status = \<lambda>_ _. None, dispatch = \<lambda>_. Inr True\<rparr>"

text \<open>The manager asks how the service is, and then to stop and shuts down at once.\<close>

definition plain_controls :: "trace \<Rightarrow> nat \<Rightarrow> service_control happening list" where
  "plain_controls tr within = [Asked Interrogate_control, Asked Stop_control, Asked Shutdown_control]"

lemma plain_controls_tell: "tells_stop (channel (\<lambda>control. fst (answer control)) plain_controls t within)"
  by (simp add: channel_def plain_controls_def sends_def answer_def tells_stop_def List.map_filter_simps)

lemma managed_run:
  "\<exists>cells tr'. manager_run plain_world plain_controls willing_manager ''xmip'' console_args 2 fresh_cells []
      = Some (SUCCESS, cells, tr')"
proof -
  let ?t0 = "report willing_manager ''xmip'' Start_pending [] 0 []"
  let ?w = "plain_world\<lparr>the_receiver := channel (\<lambda>control. fst (answer control)) plain_controls\<rparr>"
  have "\<exists>tr'. serve ?w ''xmip'' ''ok'' Test
      (report willing_manager ''xmip'' Running_state [Stop_control, Shutdown_control] 0)
      (report willing_manager ''xmip'' Stop_pending [] 0) (Suc 1) ?t0
    = Some (case fst (prepare ?w ''xmip'' ''ok'' ?t0) of
              None \<Rightarrow> Ended_refused | Some _ \<Rightarrow> Stopped, tr')"
    by (rule serve_ends_once_told [where n = 1]) (simp_all add: plain_clock plain_controls_tell)
  then show ?thesis
    using plain_prepares [of ?t0]
    by (auto simp: manager_run_def service_main_def manager_serve_def fresh_cells_def set_once_def
        willing_manager_def console_args_def numeral_2_eq_2 Let_def SUCCESS_def split: option.splits)
qed

theorem manager_reports_its_states_witness:
  "\<exists>code cells tr' sts. manager_run plain_world plain_controls willing_manager ''xmip'' console_args 2 fresh_cells []
      = Some (code, cells, tr') \<and> reported tr' = sts \<and> manager_reports None sts \<and> sts \<noteq> []
     \<and> current_state (last sts) = Stopped_state"
proof -
  obtain cells tr' where run: "manager_run plain_world plain_controls willing_manager ''xmip'' console_args 2
      fresh_cells [] = Some (SUCCESS, cells, tr')" using managed_run by blast
  have "register_handler willing_manager [] = None" "dispatch willing_manager [] = Inr True"
    by (simp_all add: willing_manager_def)
  from manager_reports_its_states [OF this run] run show ?thesis by auto
qed

theorem manager_stopped_by_witness:
  "\<exists>cells tr' ps. manager_run plain_world plain_controls willing_manager ''xmip'' console_args 2 fresh_cells []
      = Some (SUCCESS, cells, tr')
     \<and> Audited (Event ''stop'' Finished ps) \<in> set tr'
     \<and> map_of ps ''by'' = Some ''the Service Control Manager''"
proof -
  obtain cells tr' where run: "manager_run plain_world plain_controls willing_manager ''xmip'' console_args 2
      fresh_cells [] = Some (SUCCESS, cells, tr')" using managed_run by blast
  have "dispatch willing_manager [] \<noteq> Inr False" by (simp add: willing_manager_def)
  with manager_stopped_by [OF run] obtain ps who heard within before control after where stop:
    "Audited (Event ''stop'' Finished ps) \<in> set tr'" "map_of ps ''by'' = Some who"
    "plain_controls heard within = before @ Asked control # after"
    "control = Stop_control \<and> who = ''the Service Control Manager''
      \<or> control = Shutdown_control \<and> who = ''the system shutting down''"
    "Asked Stop_control \<notin> set before" by blast
  have "who = ''the Service Control Manager''"
    using stop(3-5) by (auto simp: plain_controls_def Cons_eq_append_conv)
  with run stop(1,2) show ?thesis by blast
qed

end
