(* ===== verification/Machine.thy ===== *)
theory Machine
  imports Built
begin

text \<open>
  The machine \<open>--install\<close>, \<open>--uninstall\<close> and \<open>--slice\<close> act on: its files and folders, and the programs
  run on it.  What is on disk is what was there at first with the trace's own writes and removals
  replayed, so a file written is read back; whether the operating system refuses is a parameter.
  \<open>write\<close>, \<open>said\<close> and \<open>command\<close> of \<open>install.rs\<close> are here.  Two paths are the same file only where they
  are the same path: links and differing spellings are not modelled.
\<close>

record ran =
  ran_code :: "int option"      \<comment> \<open>\<open>None\<close> where a signal ended it\<close>
  ran_stdout :: string
  ran_stderr :: string

record machine =
  files_first :: "path \<Rightarrow> string option"
  folders_first :: "path \<Rightarrow> bool"
  no_such_file :: string
  write_error :: "trace \<Rightarrow> path \<Rightarrow> string option"
  read_error :: "trace \<Rightarrow> path \<Rightarrow> string option"
  remove_error :: "trace \<Rightarrow> path \<Rightarrow> string option"
  folder_error :: "trace \<Rightarrow> path \<Rightarrow> string option"
  run_program :: "trace \<Rightarrow> string \<Rightarrow> string list \<Rightarrow> ran outcome"

section \<open>Files and folders\<close>

fun replay :: "(path \<Rightarrow> string option) \<Rightarrow> trace \<Rightarrow> path \<Rightarrow> string option" where
  "replay files [] = files"
| "replay files (Saved p text # es) = replay (files(p := Some text)) es"
| "replay files (Removed p # es) = replay (files(p := None)) es"
| "replay files (_ # es) = replay files es"

definition file_at :: "machine \<Rightarrow> trace \<Rightarrow> path \<Rightarrow> string option" where
  "file_at m tr p = replay (files_first m) tr p"

text \<open>Making a folder makes every folder it is in.\<close>

definition folder_made :: "trace \<Rightarrow> path \<Rightarrow> bool" where
  "folder_made tr p \<longleftrightarrow>
     (\<exists>e \<in> set tr. case e of Made q \<Rightarrow> rooted q = rooted p \<and> prefix (parts p) (parts q) | _ \<Rightarrow> False)"

definition exists_at :: "machine \<Rightarrow> trace \<Rightarrow> path \<Rightarrow> bool" where
  "exists_at m tr p \<longleftrightarrow> file_at m tr p \<noteq> None \<or> folders_first m p \<or> folder_made tr p"

definition said_of :: "path \<Rightarrow> string \<Rightarrow> string" where
  "said_of p error = display p @ '': '' @ error"

definition write_file :: "machine \<Rightarrow> path \<Rightarrow> string \<Rightarrow> trace \<Rightarrow> unit outcome \<times> trace" where
  "write_file m p content tr =
     (case write_error m tr p of
        Some error \<Rightarrow> (Inl (said_of p error), tr)
      | None \<Rightarrow> (Inr (), tr @ [Saved p content]))"

text \<open>\<open>fs::read_to_string\<close> and \<open>fs::remove_file\<close>, with the error's own words.\<close>

definition read_to_string :: "machine \<Rightarrow> trace \<Rightarrow> path \<Rightarrow> string outcome" where
  "read_to_string m tr p =
     (case file_at m tr p of
        None \<Rightarrow> Inl (no_such_file m)
      | Some content \<Rightarrow> (case read_error m tr p of Some error \<Rightarrow> Inl error | None \<Rightarrow> Inr content))"

definition remove_file :: "machine \<Rightarrow> path \<Rightarrow> trace \<Rightarrow> unit outcome \<times> trace" where
  "remove_file m p tr =
     (if file_at m tr p = None then (Inl (no_such_file m), tr)
      else case remove_error m tr p of
        Some error \<Rightarrow> (Inl error, tr)
      | None \<Rightarrow> (Inr (), tr @ [Removed p]))"

text \<open>\<open>fs::create_dir_all\<close>, which makes nothing of an empty path.\<close>

definition make_folders :: "machine \<Rightarrow> path \<Rightarrow> trace \<Rightarrow> unit outcome \<times> trace" where
  "make_folders m p tr =
     (if p = empty_path then (Inr (), tr)
      else case folder_error m tr p of
        Some error \<Rightarrow> (Inl (said_of p error), tr)
      | None \<Rightarrow> (Inr (), tr @ [Made p]))"

section \<open>Programs\<close>

definition debug_code :: "int \<Rightarrow> string" where
  "debug_code code = (if code < 0 then ''-'' @ decimal (nat (- code)) else decimal (nat code))"

definition command ::
  "machine \<Rightarrow> string \<Rightarrow> string list \<Rightarrow> int list \<Rightarrow> trace \<Rightarrow> unit outcome \<times> trace" where
  "command m program arguments fine tr =
     (let tr1 = tr @ [Ran program arguments] in
      case run_program m tr program arguments of
        Inl error \<Rightarrow> (Inl (''cannot run '' @ program @ '': '' @ error), tr1)
      | Inr output \<Rightarrow>
          (let code = (case ran_code output of None \<Rightarrow> - 1 | Some c \<Rightarrow> c) in
           if ran_code output = Some 0 \<or> code \<in> set fine then (Inr (), tr1)
           else (Inl (program @ '' '' @ join_with '' '' arguments @ '' exited '' @ debug_code code @ '': ''
                      @ trim (ran_stdout output) @ trim (ran_stderr output)), tr1)))"

text \<open>The \<open>?\<close> operator over a trace: the next step only where this one was accepted.\<close>

definition then_do ::
  "'a outcome \<times> trace \<Rightarrow> ('a \<Rightarrow> trace \<Rightarrow> 'b outcome \<times> trace) \<Rightarrow> 'b outcome \<times> trace" where
  "then_do step next = (case step of (Inl problem, tr) \<Rightarrow> (Inl problem, tr) | (Inr x, tr) \<Rightarrow> next x tr)"

fun do_all :: "(trace \<Rightarrow> unit outcome \<times> trace) list \<Rightarrow> trace \<Rightarrow> unit outcome \<times> trace" where
  "do_all [] tr = (Inr (), tr)"
| "do_all (step # steps) tr = then_do (step tr) (\<lambda>_ tr'. do_all steps tr')"

section \<open>Facts\<close>

lemma replay_append [simp]: "replay files (xs @ ys) = replay (replay files xs) ys"
  by (induction files xs rule: replay.induct) (simp_all add: fun_upd_def)

lemma then_do_simps [simp]:
  "then_do (Inl problem, tr) next = (Inl problem, tr)"
  "then_do (Inr x, tr) next = next x tr"
  by (simp_all add: then_do_def)

lemma then_do_adds:
  "adds P tr (snd step) \<Longrightarrow> (\<And>x t. adds P t (snd (next x t))) \<Longrightarrow> adds P tr (snd (then_do step next))"
  by (auto simp: then_do_def split: prod.splits sum.splits intro: adds_trans)

lemma do_all_adds: "(\<And>step t. step \<in> set steps \<Longrightarrow> adds P t (snd (step t))) \<Longrightarrow> adds P tr (snd (do_all steps tr))"
proof (induction steps arbitrary: tr)
  case (Cons step steps)
  have "adds P tr (snd (step tr))" by (rule Cons.prems) simp
  moreover have "adds P t (snd (do_all steps t))" for t
    by (rule Cons.IH) (use Cons.prems in auto)
  ultimately show ?case by (simp add: then_do_adds)
qed simp

lemma write_file_adds: "(\<And>text. P (Saved p text)) \<Longrightarrow> adds P tr (snd (write_file m p content tr))"
  by (auto simp: write_file_def split: option.splits)

lemma remove_file_adds: "P (Removed p) \<Longrightarrow> adds P tr (snd (remove_file m p tr))"
  by (auto simp: remove_file_def split: option.splits)

lemma make_folders_adds: "P (Made p) \<Longrightarrow> adds P tr (snd (make_folders m p tr))"
  by (auto simp: make_folders_def split: option.splits)

lemma command_adds: "P (Ran program arguments) \<Longrightarrow> adds P tr (snd (command m program arguments fine tr))"
  by (auto simp: command_def Let_def split: option.splits sum.splits)

text \<open>A file nothing saved or removed is as it was.\<close>

definition leaves :: "path \<Rightarrow> effect \<Rightarrow> bool" where
  "leaves p e \<longleftrightarrow> (\<forall>text. e \<noteq> Saved p text) \<and> e \<noteq> Removed p"

lemma leaves_file: "adds (leaves p) tr tr' \<Longrightarrow> file_at m tr' p = file_at m tr p"
proof -
  have same: "list_all (leaves p) es \<Longrightarrow> replay files es p = files p" for es files
    by (induction files es rule: replay.induct) (auto simp: leaves_def)
  assume "adds (leaves p) tr tr'"
  then show ?thesis by (auto simp: adds_def file_at_def same)
qed

text \<open>A file saved is read back.\<close>

lemma saved_is_read:
  "write_file m p content tr = (Inr (), tr') \<Longrightarrow> file_at m tr' p = Some content"
  by (auto simp: write_file_def file_at_def split: option.splits)

text \<open>
  A program run is accepted where it ended with exit code 0 or one its caller takes as fine; one a
  signal ended has no code, which is -1.
\<close>

lemma command_accepted:
  "run_program m tr program arguments = Inr output \<Longrightarrow>
     fst (command m program arguments fine tr) = Inr () \<longleftrightarrow>
       ran_code output = Some 0
       \<or> (case ran_code output of None \<Rightarrow> - 1 | Some code \<Rightarrow> code) \<in> set fine"
  by (simp add: command_def Let_def)

lemma command_trace [simp]:
  "snd (command m program arguments fine tr) = tr @ [Ran program arguments]"
  by (simp add: command_def Let_def split: sum.splits)

lemma command_then: "command m program arguments fine tr = (r, t) \<Longrightarrow> t = tr @ [Ran program arguments]"
  by (metis command_trace snd_conv)

end
