(* ===== verification/Account.thy ===== *)
theory Account
  imports Machine
begin

text \<open>
  \<open>account.rs\<close>: the folders the account of an installed node is given and what it may do in each, and
  how the platform is told to give them.
\<close>

datatype access = Reads | Keeps | Writes

record given_folder =
  folder :: path
  access :: access

definition account_given ::
  "'o read_document \<Rightarrow> path \<Rightarrow> trace \<Rightarrow> given_folder list outcome" where
  "account_given read node_file tr =
     and_then (read tr (display node_file)) (\<lambda>document.
       let config = (case parent node_file of None \<Rightarrow> path_of ''.'' | Some p \<Rightarrow> p);
           key = Option.bind (doc_operate document) operate_key
       in Inr ([\<lparr>folder = config, access = Reads\<rparr>]
            @ (case Option.bind key (\<lambda>k. parent (join_path config (path_of k))) of
                 None \<Rightarrow> [] | Some at \<Rightarrow> [\<lparr>folder = at, access = Keeps\<rparr>])
            @ [\<lparr>folder = doc_data_directory document node_file, access = Writes\<rparr>]
            @ (case parent config of
                 None \<Rightarrow> []
               | Some root \<Rightarrow> [\<lparr>folder = join_path root (path_of ''logs''), access = Writes\<rparr>])))"

definition give_one ::
  "machine \<Rightarrow> platform \<Rightarrow> string \<Rightarrow> given_folder \<Rightarrow> trace \<Rightarrow> unit outcome \<times> trace" where
  "give_one m os account one tr =
     (if \<not> exists_at m tr (folder one) then (Inr (), tr)
      else if os = Windows then
        command m ''icacls.exe''
          [display (folder one), ''/grant'',
           account @ '':(OI)(CI)'' @ (if access one = Writes then ''M'' else ''RX'')] [] tr
      else if access one \<noteq> Reads then
        command m ''chown'' [''-R'', account, display (folder one)] [] tr
      else (Inr (), tr))"

definition give_folders ::
  "machine \<Rightarrow> platform \<Rightarrow> string \<Rightarrow> given_folder list \<Rightarrow> trace \<Rightarrow> unit outcome \<times> trace" where
  "give_folders m os account all tr = do_all (map (give_one m os account) all) tr"

section \<open>What is given\<close>

text \<open>The programs that give folders to an account.\<close>

fun gives :: "string \<Rightarrow> effect \<Rightarrow> bool" where
  "gives account (Ran program args) =
     (program = ''icacls.exe'' \<and> length args = 3
      \<or> program = ''chown'' \<and> (\<exists>at. args = [''-R'', account, at]))"
| "gives account _ = False"

lemma give_one_adds: "adds (gives account) tr (snd (give_one m os account one tr))"
  by (simp add: give_one_def)

lemma give_folders_adds: "adds (gives account) tr (snd (give_folders m os account all tr))"
  unfolding give_folders_def by (rule do_all_adds) (auto simp: give_one_adds)

text \<open>On a platform that is not Windows only the folders it keeps or writes are the account's.\<close>

definition owned :: "machine \<Rightarrow> trace \<Rightarrow> string \<Rightarrow> given_folder list \<Rightarrow> effect list" where
  "owned m tr account all =
     map (\<lambda>one. Ran ''chown'' [''-R'', account, display (folder one)])
       (filter (\<lambda>one. access one \<noteq> Reads \<and> exists_at m tr (folder one)) all)"

lemma exists_after_ran: "list_all (gives account) es \<Longrightarrow> exists_at m (tr @ es) p = exists_at m tr p"
proof -
  assume ran: "list_all (gives account) es"
  then have "replay files es p = files p" for files
    by (induction files es rule: replay.induct) auto
  moreover have "\<not> folder_made es p"
    using ran by (auto simp: folder_made_def list_all_iff split: effect.splits)
  moreover have "folder_made (tr @ es) p \<longleftrightarrow> folder_made tr p \<or> folder_made es p"
    by (auto simp: folder_made_def)
  ultimately show ?thesis by (simp add: exists_at_def file_at_def)
qed

lemma owned_same: "list_all (gives account) es \<Longrightarrow> owned m (tr @ es) account all = owned m tr account all"
  by (simp add: owned_def exists_after_ran)

lemma give_unix:
  "os \<noteq> Windows \<Longrightarrow> give_folders m os account all tr = (Inr (), tr') \<Longrightarrow> tr' = tr @ owned m tr account all"
proof (induction all arbitrary: tr)
  case Nil
  then show ?case by (simp add: give_folders_def owned_def)
next
  case (Cons one all)
  obtain t where one: "give_one m os account one tr = (Inr (), t)"
    and rest: "give_folders m os account all t = (Inr (), tr')"
    using Cons.prems(2) by (auto simp: give_folders_def then_do_def split: prod.splits sum.splits)
  have t: "t = tr @ owned m tr account [one]"
    using one Cons.prems(1)
    by (auto simp: give_one_def owned_def split: if_splits dest: command_then)
  have ran: "list_all (gives account) (owned m tr account [one])"
    by (simp add: owned_def)
  have "tr' = t @ owned m t account all" using Cons.IH [OF Cons.prems(1) rest] .
  then show ?case using t owned_same [OF ran] by (simp add: owned_def)
qed

definition granted :: "access \<Rightarrow> given_folder list \<Rightarrow> path list" where
  "granted a all = map folder (filter (\<lambda>one. access one = a) all)"

lemma granted_simps [simp]:
  "granted a [] = []"
  "granted a (one # all) = (if access one = a then folder one # granted a all else granted a all)"
  "granted a (xs @ ys) = granted a xs @ granted a ys"
  by (simp_all add: granted_def)

text \<open>
  C29: What an account is given: its configuration's folder to read first, its data's folder to
  write, the folder of its key to keep where the configuration names one, and the logs beside the
  configuration's folder to write where that folder is in one; and nothing else.
\<close>

theorem account_is_given:
  assumes "account_given read node_file tr = Inr all" "parent node_file = Some config"
    and "read tr (display node_file) = Inr document"
  shows "hd all = \<lparr>folder = config, access = Reads\<rparr> \<and> granted Reads all = [config]
     \<and> granted Writes all =
         doc_data_directory document node_file
         # (case parent config of None \<Rightarrow> [] | Some root \<Rightarrow> [join_path root (path_of ''logs'')])
     \<and> set (granted Keeps all) =
         {at. \<exists>section key. doc_operate document = Some section \<and> operate_key section = Some key
              \<and> parent (join_path config (path_of key)) = Some at}"
  using assms
  by (cases "parent config"; cases "Option.bind (doc_operate document) operate_key")
     (auto simp: account_given_def Let_def bind_eq_Some_conv bind_eq_None_conv
       split: option.splits)

definition keyed_document :: "unit document" where
  "keyed_document =
     \<lparr>doc_node = ''N'', doc_data_directory = \<lambda>_. Path True [''data''], doc_roles = None,
      doc_operate = Some \<lparr>operate_listen = None, operate_key = Some ''tls/node.key''\<rparr>,
      doc_storage_listen = None, doc_provision = \<lambda>_. None, doc_receive = [], doc_applications = []\<rparr>"

theorem account_is_given_witness:
  "\<exists>all. account_given (\<lambda>_ _. Inr keyed_document) (Path True [''x'', ''config'', ''node.xmip'']) [] = Inr all
     \<and> granted Reads all = [Path True [''x'', ''config'']]
     \<and> granted Writes all = [Path True [''data''], Path True [''x'', ''logs'']]
     \<and> set (granted Keeps all) = {Path True [''x'', ''config'', ''tls'']}"
proof -
  let ?read = "\<lambda>_ _. Inr keyed_document"
  let ?file = "Path True [''x'', ''config'', ''node.xmip'']"
  obtain all where all: "account_given ?read ?file [] = Inr all"
    by (simp add: account_given_def Let_def)
  have at: "parent ?file = Some (Path True [''x'', ''config''])" by (simp add: parent_def)
  have doc: "?read [] (display ?file) = Inr keyed_document" by simp
  have paths: "path_of ''logs'' = Path False [''logs'']"
      "path_of ''tls/node.key'' = Path False [''tls'', ''node.key'']"
    by (simp_all add: path_of_def starts_with_def Let_def)
  from account_is_given [OF all at doc] all show ?thesis
    by (simp add: keyed_document_def paths parent_def join_path_def uncurrent_def)
qed

end
