(* ===== verification/Definition.thy ===== *)
theory Definition
  imports Machine Arguments
begin

text \<open>
  \<open>definition.rs\<close>: the node's service definition, and what the platform's service manager is told of
  it as text.  The definition itself and its forms are \<open>xmip_runtime::registration\<close>'s, a parameter
  over a definition type \<open>'d\<close>; the service says the node, the executable, the configuration, the
  installed root and the audit directory.
\<close>

datatype service_manager = Systemd | Launchd | Windows_scm | No_manager

record 'd registration_api =
  for_node :: "string \<Rightarrow> string \<Rightarrow> string \<Rightarrow> string \<Rightarrow> 'd"
  with_variable :: "'d \<Rightarrow> string \<Rightarrow> string \<Rightarrow> 'd"
  running_as :: "'d \<Rightarrow> string \<Rightarrow> 'd"
  service_name :: "'d \<Rightarrow> string"
  service_identity :: "'d \<Rightarrow> string option"
  service_environment :: "'d \<Rightarrow> (string \<times> string) list"
  systemd_unit :: "'d \<Rightarrow> string"
  launchd_plist :: "'d \<Rightarrow> string"
  launchd_run_directory :: "'d \<Rightarrow> string"
  windows_service_arguments :: "'d \<Rightarrow> string list"
  windows_service_settings :: "'d \<Rightarrow> (string \<times> string list) list"
  node_service_name :: "string \<Rightarrow> string"
  directory_variable :: string                  \<comment> \<open>\<open>DIRECTORY_VARIABLE\<close>\<close>
  for_target :: service_manager

text \<open>Where this executable is, or why it cannot be said, and the working directory.\<close>

record process =
  current_exe :: "path outcome"
  current_dir :: path

section \<open>Where things are\<close>

definition AUDIT :: string where
  "AUDIT = ''audit''"

definition text_of :: "path \<Rightarrow> string" where
  "text_of p = display p"

definition installed_root :: "path \<Rightarrow> path" where
  "installed_root executable =
     (let at = (case parent executable of None \<Rightarrow> executable | Some d \<Rightarrow> d)
      in if file_name at = Some ''bin''
         then (case parent at of None \<Rightarrow> at | Some root \<Rightarrow> root)
         else at)"

definition audit_directory :: "process \<Rightarrow> path \<Rightarrow> path outcome" where
  "audit_directory proc data =
     map_err (\<lambda>error. display data @ '': '' @ error)
       (absolute (current_dir proc) (join_path data (path_of AUDIT)))"

section \<open>The definition\<close>

definition node_service ::
  "'o read_document \<Rightarrow> process \<Rightarrow> 'd registration_api \<Rightarrow> path \<Rightarrow> trace \<Rightarrow> (string \<times> 'd) outcome" where
  "node_service read proc api configuration tr =
     (let shown = display configuration in
      and_then (read tr shown) (\<lambda>document.
      and_then (map_err (\<lambda>error. ''cannot say where this executable is: '' @ error) (current_exe proc)) (\<lambda>executable.
      and_then (map_err (\<lambda>error. shown @ '': '' @ error) (absolute (current_dir proc) configuration)) (\<lambda>at.
      and_then (audit_directory proc (doc_data_directory document at)) (\<lambda>audit_at.
        Inr (doc_node document,
             with_variable api
               (for_node api (doc_node document) (text_of executable) (text_of at)
                  (text_of (installed_root executable)))
               (directory_variable api) (text_of audit_at)))))))"

definition newline :: char where
  "newline = CHR 0x0A"

definition line :: "string \<Rightarrow> string" where
  "line s = s @ [newline]"

definition render :: "'d registration_api \<Rightarrow> service_manager \<Rightarrow> 'd \<Rightarrow> string outcome" where
  "render api manager service =
     (case manager of
        Systemd \<Rightarrow> Inr (systemd_unit api service)
      | Launchd \<Rightarrow> Inr (launchd_plist api service)
      | Windows_scm \<Rightarrow>
          Inr (concat (map line (windows_service_arguments api service))
               @ concat (map (\<lambda>(program, args).
                   [newline] @ line program @ concat (map line args))
                   (windows_service_settings api service)))
      | No_manager \<Rightarrow> Inl ''this platform has no service manager'')"

definition definition_print ::
  "'o read_document \<Rightarrow> process \<Rightarrow> 'd registration_api \<Rightarrow> sink \<Rightarrow> string \<Rightarrow> trace \<Rightarrow> exit_code \<times> trace" where
  "definition_print read proc api sink configuration tr =
     (case and_then (node_service read proc api (path_of configuration) tr)
             (\<lambda>(_, service). render api (for_target api) service) of
        Inr text \<Rightarrow> (SUCCESS, tr @ [Print text])
      | Inl problem \<Rightarrow> (REFUSED, fail sink ''definition'' (''xmip-service: '' @ problem) tr))"

interpretation definition_mode: print_or_refuse
  "\<lambda>configuration. definition_print read proc api sink configuration" "\<lambda>tr. tr" "''definition''"
  for read proc api sink
  by unfold_locales (auto simp: definition_print_def split: sum.splits)

section \<open>Facts\<close>

lemma split_lines:
  "(\<And>l. l \<in> set ls \<Longrightarrow> newline \<notin> set l) \<Longrightarrow>
     split_when (\<lambda>c. c = newline) (concat (map line ls)) = ls @ [[]]"
proof (induction ls)
  case (Cons l ls)
  have "split_when (\<lambda>c. c = newline) (l @ newline # concat (map line ls))
      = l # split_when (\<lambda>c. c = newline) (concat (map line ls))"
    using Cons.prems by (intro split_when_append) auto
  moreover have "line l = l @ [newline]" by (simp add: line_def)
  ultimately show ?case using Cons by simp
qed simp

lemma windows_lines:
  "concat (map line args) @ concat (map (\<lambda>(program, args). [newline] @ line program @ concat (map line args)) settings)
   = concat (map line (args @ concat (map (\<lambda>(program, args). [] # program # args) settings)))"
proof (induction settings)
  case (Cons s settings)
  then show ?case by (cases s) (simp add: line_def)
qed simp

lemma join_part: "is_part n \<Longrightarrow> n \<noteq> ''..'' \<Longrightarrow> file_name (join_path p (Path False [n])) = Some n"
  by (auto simp: file_name_def join_path_def is_part_def uncurrent_def)

section \<open>Properties\<close>

text \<open>
  The installed root of an executable in a layout's \<open>bin\<close> is the layout's root, and of one in
  any other folder that folder.
\<close>

lemma installed_root_of_layout:
  assumes "is_part exe" "is_part folder" "folder \<noteq> ''..''"
  shows "installed_root (join_path (join_path root (Path False [folder])) (Path False [exe]))
     = (if folder = ''bin'' then root else join_path root (Path False [folder]))"
  using assms
  by (cases "folder = ''bin''") (simp_all add: installed_root_def Let_def parent_join join_part)

text \<open>
  C36: What the Windows manager is told reads back line by line: where no argument holds a line feed,
  the lines are the arguments of the creation, then for each setting a blank line, its program and
  its arguments.
\<close>

theorem windows_definition_reads_back:
  assumes "\<forall>a \<in> set (windows_service_arguments api service). newline \<notin> set a"
    and "\<forall>(program, args) \<in> set (windows_service_settings api service).
           newline \<notin> set program \<and> (\<forall>a \<in> set args. newline \<notin> set a)"
  shows "\<exists>text. render api Windows_scm service = Inr text
     \<and> split_when (\<lambda>c. c = newline) text =
         windows_service_arguments api service
         @ concat (map (\<lambda>(program, args). [] # program # args) (windows_service_settings api service))
         @ [[]]"
proof -
  let ?lines = "windows_service_arguments api service
    @ concat (map (\<lambda>(program, args). [] # program # args) (windows_service_settings api service))"
  have "render api Windows_scm service = Inr (concat (map line ?lines))"
    using windows_lines [of "windows_service_arguments api service" "windows_service_settings api service"]
    by (simp add: render_def)
  moreover have "split_when (\<lambda>c. c = newline) (concat (map line ?lines)) = ?lines @ [[]]"
    using assms by (intro split_lines) fastforce
  ultimately show ?thesis by simp
qed

definition plain_registration :: "(string \<times> string) registration_api" where
  "plain_registration =
     \<lparr>for_node = \<lambda>node exe configuration root. (''xmip-'' @ node, []),
      with_variable = \<lambda>d name value. d, running_as = \<lambda>d account. (fst d, account),
      service_name = fst, service_identity = (\<lambda>d. if snd d = [] then None else Some (snd d)),
      service_environment = \<lambda>_. [(''XMIP_AUDIT_DIRECTORY'', ''/data/audit'')],
      systemd_unit = fst, launchd_plist = fst, launchd_run_directory = fst,
      windows_service_arguments = \<lambda>d. [''create'', fst d],
      windows_service_settings = \<lambda>d. [(''sc.exe'', [''description'', fst d])],
      node_service_name = \<lambda>node. ''xmip-'' @ node,
      directory_variable = ''XMIP_AUDIT_DIRECTORY'', for_target = Systemd\<rparr>"

theorem windows_definition_reads_back_witness:
  "\<exists>text. render plain_registration Windows_scm (''xmip-N'', []) = Inr text
     \<and> split_when (\<lambda>c. c = newline) text =
         [''create'', ''xmip-N'', [], ''sc.exe'', ''description'', ''xmip-N'', []]"
  using windows_definition_reads_back [of plain_registration "(''xmip-N'', [])"]
  by (simp add: plain_registration_def newline_def)

end
