(* ===== verification/Slice_Mode.thy ===== *)
theory Slice_Mode
  imports Machine Arguments
begin

text \<open>
  \<open>slice.rs\<close>: the node's configuration sliced from its cluster's file, placed on the environment's
  nodes first where \<open>--bind\<close> names the far end, and signed by the cluster's authority.  Slicing,
  placing and signing are \<open>xmip_configure\<close>'s and \<open>xmip_runtime\<close>'s, parameters.
\<close>

record slicing =
  at_far_end :: "string \<Rightarrow> string list \<Rightarrow> string \<Rightarrow> string outcome"
  slice_named :: "string \<Rightarrow> string \<Rightarrow> string \<Rightarrow> string outcome"
  slice_of :: "string \<Rightarrow> string \<Rightarrow> string outcome"
  cluster_name :: "string \<Rightarrow> string option outcome"
  signed_by_kept :: "trace \<Rightarrow> path \<Rightarrow> string \<Rightarrow> string \<Rightarrow> string \<Rightarrow> string outcome"
  signed_beside :: "trace \<Rightarrow> path \<Rightarrow> string \<Rightarrow> string \<Rightarrow> string \<Rightarrow> string outcome"

definition placed_cluster :: "slicing \<Rightarrow> arguments \<Rightarrow> string \<Rightarrow> string outcome" where
  "placed_cluster api args cluster =
     (case arg_bind args of
        None \<Rightarrow> Inr cluster
      | Some host \<Rightarrow> at_far_end api cluster (arg_nodes args) host)"

text \<open>The slice and the cluster's name it is signed under.\<close>

definition named_slice :: "slicing \<Rightarrow> arguments \<Rightarrow> string \<Rightarrow> string \<Rightarrow> (string \<times> string) outcome" where
  "named_slice api args cluster node =
     (case arg_cluster args of
        Some name \<Rightarrow> and_then (slice_named api cluster node name) (\<lambda>text. Inr (text, name))
      | None \<Rightarrow>
          and_then (slice_of api cluster node) (\<lambda>text.
          and_then (cluster_name api cluster) (\<lambda>name.
            Inr (text, case name of None \<Rightarrow> [] | Some n \<Rightarrow> n))))"

definition sliced :: "slicing \<Rightarrow> machine \<Rightarrow> arguments \<Rightarrow> trace \<Rightarrow> string outcome" where
  "sliced api m args tr =
     and_then (ok_or ''--slice needs --node, the node it slices for'' (arg_node args)) (\<lambda>node.
     and_then (map_err (\<lambda>error. ''cannot read '' @ arg_configuration args @ '': '' @ error)
         (read_to_string m tr (path_of (arg_configuration args)))) (\<lambda>read.
     and_then (placed_cluster api args read) (\<lambda>cluster.
     and_then (named_slice api args cluster node) (\<lambda>(text, name).
       case arg_authority args of
         Some place \<Rightarrow> signed_by_kept api tr (path_of place) name cluster text
       | None \<Rightarrow> signed_beside api tr (path_of (arg_configuration args)) name cluster text))))"

definition slice_print :: "slicing \<Rightarrow> machine \<Rightarrow> sink \<Rightarrow> arguments \<Rightarrow> trace \<Rightarrow> exit_code \<times> trace" where
  "slice_print api m sink args tr =
     (case sliced api m args tr of
        Inr text \<Rightarrow> (SUCCESS, tr @ [Print text])
      | Inl problem \<Rightarrow> (REFUSED, fail sink ''slice'' (''xmip-service: '' @ problem) tr))"

interpretation slice_mode: print_or_refuse "slice_print api m sink" "\<lambda>tr. tr" "''slice''"
  for api m sink
  by unfold_locales (auto simp: slice_print_def split: sum.splits)

text \<open>A slice is of the cluster's file only: nothing of the arguments but the placing changes it.\<close>

lemma slice_leaves_files: "adds (leaves p) tr (snd (slice_print api m sink args tr))"
  by (auto simp: slice_print_def leaves_def intro!: adds_fail split: sum.splits)

end
