(* ===== verification/Install_Mode.thy ===== *)
theory Install_Mode
  imports Account Definition Slice_Mode Publication
begin

text \<open>
  \<open>install.rs\<close>: \<open>--install\<close>, which writes a starter where there is no cluster's file, slices the
  node's configuration where there is none, makes the layout, registers the service with the
  platform's service manager and starts it; and \<open>--uninstall\<close>, which stops and removes the service
  and deletes nothing else.
\<close>

section \<open>The starter\<close>

definition NODE_FILE :: string where
  "NODE_FILE = ''node.xmip''"

definition LAYOUT :: "string list" where
  "LAYOUT = [''modules'', ''logs'']"

definition dquote :: char where
  "dquote = CHR 0x22"

definition backslash :: char where
  "backslash = CHR 0x5C"

definition quoted :: "string \<Rightarrow> string" where
  "quoted text =
     [dquote]
     @ replace_char dquote [backslash, dquote] (replace_char backslash [backslash, backslash] text)
     @ [dquote]"

definition starter :: "'d registration_api \<Rightarrow> string \<Rightarrow> string \<Rightarrow> string" where
  "starter api cluster node =
     (let service = quoted (node_service_name api node); node_key = quoted node in
      concat (map line
        [''# The cluster's configuration, cluster.xmip, as an Xmip package starts it:'',
         ''# one node, offline, operated from this machine on its local endpoint,'',
         ''# '' @ service @ '', which always starts (ADR-0015, amendment 2026-10-13;'',
         ''# ADR-0014, amendments 2026-10-13). The node's configuration,'',
         ''# '' @ NODE_FILE @ '', is sliced from this file; change this one, slice again'',
         ''# (xmip-service --slice) and restart the service.'',
         ''[service]'',
         ''name = '' @ service,
         ''cluster_name = '' @ quoted cluster,
         [],
         ''# One node, so it keeps Xmip Storage itself: only a node with the'',
         ''# storage role stores (ADR-0056, amendment 2026-10-20).'',
         ''[nodes.'' @ node_key @ '']'',
         ''roles = '' @ quoted ''storage'',
         [],
         ''[nodes.'' @ node_key @ ''.service]'',
         ''online = false'']))"

section \<open>The service managers\<close>

text \<open>
  \<open>xmip_runtime::service_control::control\<close>, by the act and the node, and the Windows manager's
  handle on a service: whether it opens it, has none of the name or refuses; whether it has stopped;
  and its removal.
\<close>

datatype act = Start_service | Stop_service

datatype opened = Opened | No_such_service | Not_opened string

record control_api =
  control :: "trace \<Rightarrow> act \<Rightarrow> string \<Rightarrow> string option"
  open_service :: "trace \<Rightarrow> string \<Rightarrow> opened"
  has_stopped :: "trace \<Rightarrow> string \<Rightarrow> bool outcome"
  delete_service :: "trace \<Rightarrow> string \<Rightarrow> string option"

definition control_node :: "control_api \<Rightarrow> act \<Rightarrow> string \<Rightarrow> trace \<Rightarrow> unit outcome \<times> trace" where
  "control_node ctl act node tr =
     (case control ctl tr act node of
        Some problem \<Rightarrow> (Inl problem, tr @ [Called ''control''])
      | None \<Rightarrow> (Inr (), tr @ [Called ''control'']))"

text \<open>A step whose refusal is not looked at.\<close>

definition ignoring :: "unit outcome \<times> trace \<Rightarrow> unit outcome \<times> trace" where
  "ignoring step = (Inr (), snd step)"

definition give ::
  "machine \<Rightarrow> platform \<Rightarrow> 'd registration_api \<Rightarrow> 'd \<Rightarrow> given_folder list \<Rightarrow> trace \<Rightarrow> unit outcome \<times> trace" where
  "give m os api service all tr =
     (case service_identity api service of
        None \<Rightarrow> (Inr (), tr)
      | Some account \<Rightarrow> give_folders m os account all tr)"

section \<open>Registering\<close>

definition register_windows ::
  "machine \<Rightarrow> control_api \<Rightarrow> 'd registration_api \<Rightarrow> 'd \<Rightarrow> string \<Rightarrow> given_folder list \<Rightarrow> trace
     \<Rightarrow> unit outcome \<times> trace" where
  "register_windows m ctl api service node all tr =
     do_all
       ([command m ''sc.exe'' (windows_service_arguments api service) [1073]]
        @ map (\<lambda>(program, args). command m program args []) (windows_service_settings api service)
        @ [give m Windows api service all, control_node ctl Start_service node]) tr"

definition unit_path :: "string \<Rightarrow> path" where
  "unit_path name = path_of (''/etc/systemd/system/'' @ name @ ''.service'')"

definition register_linux ::
  "machine \<Rightarrow> 'd registration_api \<Rightarrow> 'd \<Rightarrow> given_folder list \<Rightarrow> trace \<Rightarrow> unit outcome \<times> trace" where
  "register_linux m api service all tr =
     (let name = service_name api service; unit_name = name @ ''.service'' in
      do_all
        [give m Linux api service all,
         write_file m (unit_path name) (systemd_unit api service),
         command m ''systemctl'' [''daemon-reload''] [],
         command m ''systemctl'' [''enable'', unit_name] [],
         command m ''systemctl'' [''restart'', unit_name] []] tr)"

definition plist_path :: "string \<Rightarrow> path" where
  "plist_path name = path_of (''/Library/LaunchDaemons/'' @ name @ ''.plist'')"

definition run_plist :: "string \<Rightarrow> string" where
  "run_plist name = ''/Library/LaunchDaemons/'' @ name @ ''.run.plist''"

definition register_macos ::
  "machine \<Rightarrow> 'd registration_api \<Rightarrow> 'd \<Rightarrow> given_folder list \<Rightarrow> trace \<Rightarrow> unit outcome \<times> trace" where
  "register_macos m api service all tr =
     (let name = service_name api service in
      do_all
        [give m MacOS api service all,
         write_file m (path_of (run_plist name)) (launchd_run_directory api service),
         \<lambda>t. ignoring (command m ''launchctl'' [''bootout'', ''system/'' @ name @ ''.run''] [] t),
         command m ''launchctl'' [''bootstrap'', ''system'', run_plist name] [],
         write_file m (plist_path name) (launchd_plist api service),
         \<lambda>t. ignoring (command m ''launchctl'' [''bootout'', ''system/'' @ name] [] t),
         command m ''launchctl''
           [''bootstrap'', ''system'', ''/Library/LaunchDaemons/'' @ name @ ''.plist''] []] tr)"

definition register ::
  "machine \<Rightarrow> platform \<Rightarrow> control_api \<Rightarrow> 'd registration_api \<Rightarrow> 'd \<Rightarrow> string \<Rightarrow> given_folder list \<Rightarrow> trace
     \<Rightarrow> unit outcome \<times> trace" where
  "register m os ctl api service node all tr =
     (case os of
        Windows \<Rightarrow> register_windows m ctl api service node all tr
      | Linux \<Rightarrow> register_linux m api service all tr
      | MacOS \<Rightarrow> register_macos m api service all tr
      | Other_platform _ \<Rightarrow> (Inl ''this platform has no service manager'', tr))"

section \<open>Deregistering\<close>

text \<open>How long a drain may take, and how long between two looks, in nanoseconds.\<close>

definition DRAIN :: nat where
  "DRAIN = 60000000000"

definition LOOK :: nat where
  "LOOK = 20000000"

text \<open>Every look and sleep of the wait; \<open>DRAIN_LOOKS\<close> of them are enough under a lawful clock.\<close>

definition DRAIN_LOOKS :: nat where
  "DRAIN_LOOKS = 3002"

definition stop_state :: "control_api \<Rightarrow> string \<Rightarrow> trace \<Rightarrow> bool outcome \<times> trace" where
  "stop_state ctl name tr =
     (map_err (\<lambda>error. name @ '': '' @ error) (has_stopped ctl tr name), tr @ [Called ''query_status''])"

fun wait_stopped ::
  "nat \<Rightarrow> control_api \<Rightarrow> clock \<Rightarrow> string \<Rightarrow> nat \<Rightarrow> trace \<Rightarrow> (unit outcome \<times> trace) option" where
  "wait_stopped 0 ctl clk name began tr = None"
| "wait_stopped (Suc fuel) ctl clk name began tr =
     (case stop_state ctl name tr of
        (Inl problem, tr1) \<Rightarrow> Some (Inl problem, tr1)
      | (Inr True, tr1) \<Rightarrow> Some (Inr (), tr1)
      | (Inr False, tr1) \<Rightarrow>
          (case elapsed_since clk began tr1 of
             (e, tr2) \<Rightarrow>
               if DRAIN < e
               then Some (Inl (name @ '' did not stop within '' @ decimal (DRAIN div 1000000000) @ '' s''), tr2)
               else wait_stopped fuel ctl clk name began (tr2 @ [Slept LOOK])))"

definition removed_words :: "string \<Rightarrow> string" where
  "removed_words name = name @ '' stopped and removed; its configuration and data are kept''"

definition absent_words :: "string \<Rightarrow> string" where
  "absent_words name = name @ '' is not registered; nothing to remove''"

text \<open>The service stopped, where it has not, and its drain waited for.\<close>

definition stop_windows ::
  "nat \<Rightarrow> control_api \<Rightarrow> clock \<Rightarrow> string \<Rightarrow> string \<Rightarrow> trace \<Rightarrow> (unit outcome \<times> trace) option" where
  "stop_windows fuel ctl clk name node tr =
     (case stop_state ctl name tr of
        (Inl problem, tr1) \<Rightarrow> Some (Inl problem, tr1)
      | (Inr True, tr1) \<Rightarrow> Some (Inr (), tr1)
      | (Inr False, tr1) \<Rightarrow>
          (case control_node ctl Stop_service node tr1 of
             (Inl problem, tr2) \<Rightarrow> Some (Inl problem, tr2)
           | (Inr _, tr2) \<Rightarrow> wait_stopped fuel ctl clk name (clk tr2) (tr2 @ [Looked])))"

definition delete_windows :: "control_api \<Rightarrow> string \<Rightarrow> trace \<Rightarrow> string outcome \<times> trace" where
  "delete_windows ctl name tr =
     (case delete_service ctl tr name of
        Some error \<Rightarrow> (Inl (name @ '': '' @ error), tr @ [Called ''delete''])
      | None \<Rightarrow> (Inr (removed_words name), tr @ [Called ''delete'']))"

definition deregister_windows ::
  "nat \<Rightarrow> control_api \<Rightarrow> clock \<Rightarrow> string \<Rightarrow> string \<Rightarrow> trace \<Rightarrow> (string outcome \<times> trace) option" where
  "deregister_windows fuel ctl clk name node tr =
     (case open_service ctl tr name of
        Not_opened problem \<Rightarrow> Some (Inl problem, tr)
      | No_such_service \<Rightarrow> Some (Inr (absent_words name), tr)
      | Opened \<Rightarrow>
          map_option (\<lambda>step. then_do step (\<lambda>_. delete_windows ctl name))
            (stop_windows fuel ctl clk name node tr))"

definition said_removing :: "machine \<Rightarrow> path \<Rightarrow> trace \<Rightarrow> unit outcome \<times> trace" where
  "said_removing m p tr = map_prod (map_err (said_of p)) id (remove_file m p tr)"

definition deregister_linux :: "machine \<Rightarrow> string \<Rightarrow> trace \<Rightarrow> string outcome \<times> trace" where
  "deregister_linux m name tr =
     (let unit = unit_path name in
      if \<not> exists_at m tr unit then (Inr (absent_words name), tr)
      else then_do
        (do_all
          [command m ''systemctl'' [''disable'', ''--now'', name @ ''.service''] [],
           said_removing m unit,
           command m ''systemctl'' [''daemon-reload''] []] tr)
        (\<lambda>_ t. (Inr (removed_words name), t)))"

definition deregister_macos :: "machine \<Rightarrow> string \<Rightarrow> trace \<Rightarrow> string outcome \<times> trace" where
  "deregister_macos m name tr =
     (let plist = plist_path name in
      if \<not> exists_at m tr plist then (Inr (absent_words name), tr)
      else then_do
        (do_all
          [command m ''launchctl'' [''bootout'', ''system/'' @ name] [],
           said_removing m plist,
           \<lambda>t. ignoring (command m ''launchctl'' [''bootout'', ''system/'' @ name @ ''.run''] [] t),
           \<lambda>t. ignoring (remove_file m (path_of (run_plist name)) t)] tr)
        (\<lambda>_ t. (Inr (removed_words name), t)))"

definition deregister ::
  "nat \<Rightarrow> machine \<Rightarrow> platform \<Rightarrow> control_api \<Rightarrow> clock \<Rightarrow> string \<Rightarrow> string \<Rightarrow> trace
     \<Rightarrow> (string outcome \<times> trace) option" where
  "deregister fuel m os ctl clk name node tr =
     (case os of
        Windows \<Rightarrow> deregister_windows fuel ctl clk name node tr
      | Linux \<Rightarrow> Some (deregister_linux m name tr)
      | MacOS \<Rightarrow> Some (deregister_macos m name tr)
      | Other_platform _ \<Rightarrow> Some (Inl ''this platform has no service manager'', tr))"

section \<open>Installing\<close>

text \<open>All an installation is given of the world.\<close>

record ('o, 'd) install_world =
  iw_machine :: machine
  iw_os :: platform
  iw_control :: control_api
  iw_registration :: "'d registration_api"
  iw_slicing :: slicing
  iw_read :: "'o read_document"
  iw_process :: process
  iw_sink :: sink
  iw_clock :: clock

text \<open>The node's slice of a cluster's file, as the cluster the file names or, where it names none, ours.\<close>

definition lay_slice :: "slicing \<Rightarrow> string \<Rightarrow> string \<Rightarrow> string \<Rightarrow> string outcome" where
  "lay_slice sl cluster node source =
     and_then (cluster_name sl source) (\<lambda>named.
       if named \<noteq> None then slice_of sl source node else slice_named sl source node cluster)"

text \<open>The node's configuration, laid out where there is none.\<close>

definition lay_node ::
  "('o, 'd) install_world \<Rightarrow> string \<Rightarrow> string \<Rightarrow> path \<Rightarrow> path \<Rightarrow> trace \<Rightarrow> unit outcome \<times> trace" where
  "lay_node w cluster node cluster_file node_file tr =
     (let m = iw_machine w; sl = iw_slicing w in
      if exists_at m tr node_file then (Inr (), tr)
      else then_do
        (if exists_at m tr cluster_file then (Inr (), tr)
         else write_file m cluster_file (starter (iw_registration w) cluster node) tr)
        (\<lambda>_ tr1.
          case and_then (map_err (said_of cluster_file) (read_to_string m tr1 cluster_file)) (\<lambda>source.
               and_then (lay_slice sl cluster node source) (\<lambda>slice.
               signed_beside sl tr1 node_file cluster source slice)) of
            Inl problem \<Rightarrow> (Inl problem, tr1)
          | Inr text \<Rightarrow> write_file m node_file text tr1))"

definition lay_folders :: "machine \<Rightarrow> path \<Rightarrow> trace \<Rightarrow> unit outcome \<times> trace" where
  "lay_folders m at tr =
     (case parent at of
        None \<Rightarrow> (Inr (), tr)
      | Some root \<Rightarrow> do_all (map (\<lambda>f. make_folders m (join_path root (path_of f))) LAYOUT) tr)"

text \<open>The service the node is registered as, with what its account is given.\<close>

definition configured_service ::
  "('o, 'd) install_world \<Rightarrow> arguments \<Rightarrow> path \<Rightarrow> trace \<Rightarrow> (string \<times> 'd \<times> given_folder list) outcome" where
  "configured_service w args node_file tr =
     and_then (node_service (iw_read w) (iw_process w) (iw_registration w) node_file tr) (\<lambda>(node, service).
       case arg_account args of
         None \<Rightarrow> Inr (node, service, [])
       | Some account \<Rightarrow>
           and_then (account_given (iw_read w) node_file tr) (\<lambda>all.
             Inr (node, running_as (iw_registration w) service account, all)))"

text \<open>From the layout's folders to the service registered, once the node's configuration is there.\<close>

definition set_up_service ::
  "('o, 'd) install_world \<Rightarrow> arguments \<Rightarrow> path \<Rightarrow> path \<Rightarrow> trace \<Rightarrow> string outcome \<times> trace" where
  "set_up_service w args at node_file tr =
     (let m = iw_machine w; api = iw_registration w in
      then_do (lay_folders m at tr) (\<lambda>_ tr1.
      then_do (configured_service w args node_file tr1, tr1) (\<lambda>(configured, service, all) tr2.
      then_do (do_all (map (\<lambda>(name, value). make_folders m (path_of value))
                  (filter (\<lambda>(name, value). name = directory_variable api)
                     (service_environment api service))) tr2) (\<lambda>_ tr3.
      then_do (register m (iw_os w) (iw_control w) api service configured all tr3) (\<lambda>_ tr4.
        (Inr (service_name api service @ '' registered and started, configured by ''
              @ text_of node_file), tr4))))))"

definition installed ::
  "('o, 'd) install_world \<Rightarrow> arguments \<Rightarrow> trace \<Rightarrow> string outcome \<times> trace" where
  "installed w args tr =
     (case (arg_node args, arg_cluster args) of
        (Some node, Some cluster) \<Rightarrow>
          (let cluster_file = path_of (arg_configuration args);
               at = (case parent cluster_file of None \<Rightarrow> path_of ''.'' | Some p \<Rightarrow> p);
               node_file = join_path at (path_of NODE_FILE)
           in then_do (make_folders (iw_machine w) at
                  (record_event (iw_sink w) ''install'' Begin [(''node'', node)] tr)) (\<lambda>_ tr1.
              then_do (lay_node w cluster node cluster_file node_file tr1) (\<lambda>_ tr2.
                set_up_service w args at node_file tr2)))
      | _ \<Rightarrow> (Inl ''--install needs --node and --cluster'', tr))"

definition uninstalled ::
  "nat \<Rightarrow> ('o, 'd) install_world \<Rightarrow> arguments \<Rightarrow> trace \<Rightarrow> (string outcome \<times> trace) option" where
  "uninstalled fuel w args tr =
     (case iw_read w tr (arg_configuration args) of
        Inl reason \<Rightarrow> Some (Inl reason, tr)
      | Inr document \<Rightarrow>
          (let node = doc_node document; name = node_service_name (iw_registration w) node
           in deregister fuel (iw_machine w) (iw_os w) (iw_control w) (iw_clock w) name node
                (record_event (iw_sink w) ''uninstall'' Begin [(''service'', name)] tr)))"

definition ended_mode :: "sink \<Rightarrow> string \<Rightarrow> string outcome \<times> trace \<Rightarrow> exit_code \<times> trace" where
  "ended_mode sink action outcome =
     (case outcome of
        (Inr said, tr) \<Rightarrow>
          (SUCCESS, record_event sink action Finished [(''said'', said)] (tr @ [Println (''OK: '' @ said)]))
      | (Inl problem, tr) \<Rightarrow> (REFUSED, fail sink action (''xmip-service: '' @ problem) tr))"

definition install :: "('o, 'd) install_world \<Rightarrow> arguments \<Rightarrow> trace \<Rightarrow> exit_code \<times> trace" where
  "install w args tr = ended_mode (iw_sink w) ''install'' (installed w args tr)"

definition uninstall :: "nat \<Rightarrow> ('o, 'd) install_world \<Rightarrow> arguments \<Rightarrow> trace \<Rightarrow> (exit_code \<times> trace) option" where
  "uninstall fuel w args tr =
     map_option (ended_mode (iw_sink w) ''uninstall'') (uninstalled fuel w args tr)"

end
