(* ===== verification/Installation.thy ===== *)
theory Installation
  imports Install_Mode
begin

text \<open>
  What \<open>--install\<close> and \<open>--uninstall\<close> promise: a configuration already there is never written over,
  what is laid out where there is none, in which order the service is registered, that nothing but
  the registration is removed, and that a removal ends.
\<close>

section \<open>A TOML basic string\<close>

text \<open>
  The reader of a basic string, from its opening to its closing quote, for the two escapes \<open>quoted\<close>
  writes.  TOML lets a basic string hold a tab and no other control character unescaped.
\<close>

definition toml_char :: "char \<Rightarrow> bool" where
  "toml_char c \<longleftrightarrow> of_char c = (9 :: nat) \<or> (of_char c \<ge> (32 :: nat) \<and> of_char c \<noteq> (127 :: nat))"

fun toml_rest :: "string \<Rightarrow> string option" where
  "toml_rest [] = None"
| "toml_rest (c # cs) =
     (if c = dquote then (if cs = [] then Some [] else None)
      else if c = backslash then
        (case cs of
           [] \<Rightarrow> None
         | d # ds \<Rightarrow>
             if d = dquote \<or> d = backslash then map_option (Cons d) (toml_rest ds) else None)
      else if toml_char c then map_option (Cons c) (toml_rest cs)
      else None)"

definition toml_basic :: "string \<Rightarrow> string option" where
  "toml_basic s = (case s of [] \<Rightarrow> None | c # cs \<Rightarrow> if c = dquote then toml_rest cs else None)"

lemma quote_chars [simp]: "dquote \<noteq> backslash" "backslash \<noteq> dquote" "toml_char dquote" "toml_char backslash"
  by (simp_all add: dquote_def backslash_def toml_char_def)

lemma toml_rest_quoted:
  "toml_rest (replace_char dquote [backslash, dquote]
     (replace_char backslash [backslash, backslash] s) @ [dquote])
   = (if list_all toml_char s then Some s else None)"
  by (induction s) auto

text \<open>
  C28: A name quoted for the starter reads back from TOML as it was, whatever quotes and backslashes
  it holds, exactly where it holds no control character but a tab: a line feed is not escaped, and
  such a text is no basic string.
\<close>

theorem quoted_reads_back:
  "toml_basic (quoted s) = (if list_all toml_char s then Some s else None)"
  using toml_rest_quoted [of s] by (simp add: toml_basic_def quoted_def)

section \<open>What an installation adds\<close>

text \<open>The folders the service managers' own files are in.\<close>

definition registration_file :: "path \<Rightarrow> bool" where
  "registration_file p \<longleftrightarrow> rooted p \<and>
     (prefix [''etc'', ''systemd'', ''system''] (parts p) \<or> prefix [''Library'', ''LaunchDaemons''] (parts p))"

lemma unit_path_registration: "registration_file (unit_path name)"
  by (simp add: unit_path_def path_of_def registration_file_def starts_with_def Let_def)

lemma plist_path_registration: "registration_file (plist_path name)"
  by (simp add: plist_path_def path_of_def registration_file_def starts_with_def Let_def)

lemma run_plist_registration: "registration_file (path_of (run_plist name))"
  by (simp add: run_plist_def path_of_def registration_file_def starts_with_def Let_def)

lemmas registration_files [simp] =
  unit_path_registration plist_path_registration run_plist_registration

lemma then_do_adds_then:
  "adds P tr (snd step) \<Longrightarrow> (\<And>x t. adds P tr t \<Longrightarrow> adds P t (snd (next x t))) \<Longrightarrow>
     adds P tr (snd (then_do step next))"
  by (auto simp: then_do_def split: prod.splits sum.splits intro: adds_trans)

lemma ignoring_adds [simp]: "snd (ignoring step) = snd step"
  by (simp add: ignoring_def)

lemma gives_ran: "(\<And>program args. P (Ran program args)) \<Longrightarrow> gives account e \<Longrightarrow> P e"
  by (cases e) auto

lemma give_adds: "(\<And>program args. P (Ran program args)) \<Longrightarrow> adds P tr (snd (give m os api service all tr))"
  by (auto simp: give_def intro: adds_mono [OF give_folders_adds] gives_ran split: option.splits)

lemma control_node_adds: "P (Called ''control'') \<Longrightarrow> adds P tr (snd (control_node ctl act node tr))"
  by (auto simp: control_node_def split: option.splits)

lemma register_adds:
  assumes ran: "\<And>program args. P (Ran program args)" and called: "P (Called ''control'')"
    and saved: "\<And>q text. registration_file q \<Longrightarrow> P (Saved q text)"
  shows "adds P tr (snd (register m os ctl api service node all tr))"
proof -
  have steps: "adds P t (snd (give m os' api service all t))" "adds P t (snd (control_node ctl act node t))"
      "adds P t (snd (command m program args fine t))"
      "registration_file q \<Longrightarrow> adds P t (snd (write_file m q s t))" for t os' act program args fine q s
    by (simp_all add: give_adds ran control_node_adds called write_file_adds saved)
  show ?thesis
    by (cases os)
       (auto simp: register_def register_windows_def register_linux_def register_macos_def Let_def steps ran
         simp del: do_all.simps intro!: do_all_adds)
qed

lemma lay_folders_adds: "(\<And>q. P (Made q)) \<Longrightarrow> adds P tr (snd (lay_folders m at tr))"
  by (auto simp: lay_folders_def make_folders_adds intro!: do_all_adds split: option.splits)

text \<open>Whatever is saved was not there when it was looked for, or is the registration's.\<close>

lemma lay_node_adds:
  assumes saved: "\<And>t q text. adds P tr t \<Longrightarrow> \<not> exists_at (iw_machine w) t q \<Longrightarrow> P (Saved q text)"
  shows "adds P tr (snd (lay_node w cluster node cluster_file node_file tr))"
proof (cases "exists_at (iw_machine w) tr node_file")
  case True
  then show ?thesis by (simp add: lay_node_def Let_def)
next
  case False
  then have node: "P (Saved node_file s)" for s
    using saved [OF adds_refl] by blast
  have cluster: "P (Saved cluster_file s)" if "\<not> exists_at (iw_machine w) tr cluster_file" for s
    using that saved [OF adds_refl] by blast
  show ?thesis
    using False by (auto simp: lay_node_def Let_def intro!: then_do_adds write_file_adds node cluster
      split: sum.splits)
qed

lemma set_up_adds:
  assumes made: "\<And>q. P (Made q)" and ran: "\<And>program args. P (Ran program args)"
    and called: "P (Called ''control'')"
    and registered: "\<And>q s. registration_file q \<Longrightarrow> P (Saved q s)"
  shows "adds P tr (snd (set_up_service w args at node_file tr))"
proof -
  have folders_all: "adds P t (snd (do_all (map (\<lambda>p. make_folders m (path_of (snd p))) vs) t))"
    for m vs t by (rule do_all_adds) (auto simp: make_folders_adds made)
  have reg: "adds P t (snd (register m os ctl api service node' all t))" for m os ctl api service node' all t
    using ran called registered by (rule register_adds)
  have lay_f: "adds P t (snd (lay_folders m at t))" for m at t
    using made by (rule lay_folders_adds)
  show ?thesis
    by (auto simp: set_up_service_def Let_def case_prod_unfold
        intro!: then_do_adds folders_all reg lay_f)
qed

lemma installed_adds:
  assumes said: "\<And>s. P (Eprintln s)" "\<And>ps. P (Audited (Event ''install'' Begin ps))"
    and made: "\<And>q. P (Made q)" and ran: "\<And>program args. P (Ran program args)"
    and called: "P (Called ''control'')"
    and registered: "\<And>q s. registration_file q \<Longrightarrow> P (Saved q s)"
    and saved: "\<And>t q s. adds P tr t \<Longrightarrow> \<not> exists_at (iw_machine w) t q \<Longrightarrow> P (Saved q s)"
  shows "adds P tr (snd (installed w args tr))"
proof (cases "arg_node args = None \<or> arg_cluster args = None")
  case True
  then show ?thesis by (auto simp: installed_def split: option.splits)
next
  case False
  then obtain node cluster where names: "arg_node args = Some node" "arg_cluster args = Some cluster"
    by auto
  have recorded: "adds P t (record_event (iw_sink w) ''install'' Begin ps t)" for ps t
    using said by (intro adds_record_event) simp_all
  have folders: "adds P t (snd (make_folders m q t))" for m q t
    using made by (rule make_folders_adds)
  have lay: "adds P t (snd (lay_node w cluster node c n t))" if "adds P tr t" for c n t
    using saved adds_trans [OF that] by (intro lay_node_adds) blast
  have begun: "adds P tr (snd (make_folders m q (record_event (iw_sink w) ''install'' Begin ps tr)))"
    for m q ps using recorded folders by (rule adds_trans)
  have rest: "adds P t (snd (set_up_service w args at n t))" for at n t
    using made ran called registered by (rule set_up_adds)
  show ?thesis
    by (simp add: installed_def names Let_def)
       (rule then_do_adds_then [OF begun], rule then_do_adds [OF lay], assumption, rule rest)
qed

section \<open>Properties of an installation\<close>

text \<open>
  C21: A file that is there before an installation is there after it as it was: the operator's
  cluster file, the node's configuration and everything else, the service manager's own files for
  the service apart.
\<close>

theorem install_never_overwrites:
  assumes "file_at (iw_machine w) tr p \<noteq> None" "\<not> registration_file p"
  shows "file_at (iw_machine w) (snd (install w args tr)) p = file_at (iw_machine w) tr p"
proof -
  have "adds (leaves p) tr (snd (installed w args tr))"
  proof (rule installed_adds)
    fix t q s
    assume "adds (leaves p) tr t" "\<not> exists_at (iw_machine w) t q"
    then show "leaves p (Saved q s)"
      using leaves_file [of p tr t "iw_machine w"] assms(1) by (auto simp: leaves_def exists_at_def)
  qed (use assms(2) in \<open>auto simp: leaves_def\<close>)
  moreover have "adds (leaves p) t (snd (ended_mode sink action (r, t)))" for sink action r t
    by (auto simp: ended_mode_def leaves_def intro!: adds_fail adds_record_event split: sum.splits)
  ultimately have "adds (leaves p) tr (snd (install w args tr))"
    by (metis install_def adds_trans prod.collapse)
  then show ?thesis by (rule leaves_file)
qed

lemma installed_failures: "failures (snd (installed w args tr)) = failures tr"
proof -
  have "adds (\<lambda>e. failed_action e = None) tr (snd (installed w args tr))"
    by (rule installed_adds) simp_all
  then obtain es where "snd (installed w args tr) = tr @ es" "list_all (\<lambda>e. failed_action e = None) es"
    by (auto simp: adds_def)
  moreover have "list_all (\<lambda>e. failed_action e = None) es \<Longrightarrow> failures es = []" for es
    by (induction es) simp_all
  ultimately show ?thesis by simp
qed

lemma installed_prefix: "prefix tr (snd (installed w args tr))"
  by (rule adds_prefix [where P = "\<lambda>_. True"]) (rule installed_adds; simp)

interpretation install_mode: print_or_refuse "install w" "\<lambda>tr. tr" "''install''" for w
proof unfold_locales
  fix a tr
  show "prefix tr (snd (install w a tr))"
    using installed_prefix [of tr w a]
    by (auto simp: install_def ended_mode_def split: sum.splits prod.splits)
  show "fst (install w a tr) = SUCCESS \<Longrightarrow> failures (snd (install w a tr)) = failures tr"
    "fst (install w a tr) \<noteq> SUCCESS \<Longrightarrow>
       fst (install w a tr) = REFUSED \<and> failures (snd (install w a tr)) = failures tr @ [''install'']"
    using installed_failures [of w a tr]
    by (auto simp: install_def ended_mode_def split: sum.splits prod.splits)
qed

section \<open>Registering, in order\<close>

lemma then_do_Inr:
  "then_do step next = (Inr y, tr') \<longleftrightarrow> (\<exists>x t. step = (Inr x, t) \<and> next x t = (Inr y, tr'))"
  by (auto simp: then_do_def split: prod.splits sum.splits)

lemma write_file_then:
  "write_file m p content tr = (Inr (), t) \<longleftrightarrow> write_error m tr p = None \<and> t = tr @ [Saved p content]"
  by (auto simp: write_file_def split: option.splits)

text \<open>What an accepted registration adds, on Linux and on macOS.\<close>

lemma given_unix:
  assumes "give m os api service all tr = (Inr (), t)" "os \<noteq> Windows"
  shows "t = tr @ (case service_identity api service of
      None \<Rightarrow> [] | Some account \<Rightarrow> owned m tr account all)"
  using assms by (auto simp: give_def split: option.splits dest: give_unix [rotated])

definition unit_steps :: "'d registration_api \<Rightarrow> 'd \<Rightarrow> trace" where
  "unit_steps api service =
     [Saved (unit_path (service_name api service)) (systemd_unit api service),
      Ran ''systemctl'' [''daemon-reload''],
      Ran ''systemctl'' [''enable'', service_name api service @ ''.service''],
      Ran ''systemctl'' [''restart'', service_name api service @ ''.service'']]"

lemma registered_linux:
  assumes "register m Linux ctl api service node all tr = (Inr (), tr')"
  shows "tr' = tr
     @ (case service_identity api service of None \<Rightarrow> [] | Some account \<Rightarrow> owned m tr account all)
     @ unit_steps api service"
proof -
  obtain t where given: "give m Linux api service all tr = (Inr (), t)"
    and rest: "tr' = t @ unit_steps api service"
    using assms
    by (auto simp: register_def register_linux_def unit_steps_def Let_def then_do_Inr write_file_then
        dest!: command_then)
  with given_unix [OF given] show ?thesis by simp
qed

lemma ignoring_then:
  "ignoring (command m program args fine tr) = (Inr (), t) \<longleftrightarrow> t = tr @ [Ran program args]"
  by (auto simp: ignoring_def)

definition daemon_steps :: "'d registration_api \<Rightarrow> 'd \<Rightarrow> trace" where
  "daemon_steps api service =
     [Saved (path_of (run_plist (service_name api service))) (launchd_run_directory api service),
      Ran ''launchctl'' [''bootout'', ''system/'' @ service_name api service @ ''.run''],
      Ran ''launchctl'' [''bootstrap'', ''system'', run_plist (service_name api service)],
      Saved (plist_path (service_name api service)) (launchd_plist api service),
      Ran ''launchctl'' [''bootout'', ''system/'' @ service_name api service],
      Ran ''launchctl'' [''bootstrap'', ''system'',
        ''/Library/LaunchDaemons/'' @ service_name api service @ ''.plist'']]"

lemma registered_macos:
  assumes "register m MacOS ctl api service node all tr = (Inr (), tr')"
  shows "tr' = tr
     @ (case service_identity api service of None \<Rightarrow> [] | Some account \<Rightarrow> owned m tr account all)
     @ daemon_steps api service"
proof -
  obtain t where given: "give m MacOS api service all tr = (Inr (), t)"
    and rest: "tr' = t @ daemon_steps api service"
    using assms
    by (auto simp: register_def register_macos_def daemon_steps_def Let_def then_do_Inr write_file_then
        ignoring_then dest!: command_then)
  with given_unix [OF given] show ?thesis by simp
qed

text \<open>
  C26: A service registered on Linux as an account is given to it first: a registration that is
  accepted makes the folders the account keeps and writes its own, then writes the unit, and only
  then has systemd read it, enable it and restart it, in that order and nothing else.
\<close>

theorem register_linux_in_order:
  assumes "register m Linux ctl api service node all tr = (Inr (), tr')"
  shows "tr' = tr
     @ (case service_identity api service of None \<Rightarrow> [] | Some account \<Rightarrow> owned m tr account all)
     @ [Saved (unit_path (service_name api service)) (systemd_unit api service),
        Ran ''systemctl'' [''daemon-reload''],
        Ran ''systemctl'' [''enable'', service_name api service @ ''.service''],
        Ran ''systemctl'' [''restart'', service_name api service @ ''.service'']]"
  using registered_linux [OF assms] by (simp add: unit_steps_def)

text \<open>
  C27: On macOS too the account is given its folders first: a registration that is accepted makes the
  folders it keeps and writes its own, then has launchd load the endpoints' folder's daemon and then
  the service's, each written, taken out where it was loaded, and loaded again, and nothing else.
\<close>

theorem register_macos_in_order:
  assumes "register m MacOS ctl api service node all tr = (Inr (), tr')"
  shows "tr' = tr
     @ (case service_identity api service of None \<Rightarrow> [] | Some account \<Rightarrow> owned m tr account all)
     @ [Saved (path_of (run_plist (service_name api service))) (launchd_run_directory api service),
        Ran ''launchctl'' [''bootout'', ''system/'' @ service_name api service @ ''.run''],
        Ran ''launchctl'' [''bootstrap'', ''system'', run_plist (service_name api service)],
        Saved (plist_path (service_name api service)) (launchd_plist api service),
        Ran ''launchctl'' [''bootout'', ''system/'' @ service_name api service],
        Ran ''launchctl'' [''bootstrap'', ''system'',
          ''/Library/LaunchDaemons/'' @ service_name api service @ ''.plist'']]"
  using registered_macos [OF assms] by (simp add: daemon_steps_def)

section \<open>Removing\<close>

lemma said_removing_adds: "P (Removed p) \<Longrightarrow> adds P tr (snd (said_removing m p tr))"
  by (simp add: said_removing_def remove_file_adds)

text \<open>One look at a service, and what is left to do.\<close>

lemma wait_stopped_cases:
  assumes "wait_stopped (Suc fuel) ctl clk name began tr = Some (r, tr')"
  obtains "tr' = tr @ [Called ''query_status'']" | "tr' = tr @ [Called ''query_status'', Looked]"
    | "wait_stopped fuel ctl clk name began (tr @ [Called ''query_status'', Looked, Slept LOOK])
        = Some (r, tr')"
proof (cases "has_stopped ctl tr name")
  case (Inl error)
  then show ?thesis using assms that(1) by (simp add: stop_state_def)
next
  case (Inr has)
  show ?thesis
  proof (cases "has \<or> DRAIN < clk (tr @ [Called ''query_status'']) - began")
    case True
    then show ?thesis
      using assms Inr that(1,2) by (cases has) (auto simp: stop_state_def elapsed_since_def)
  next
    case False
    then show ?thesis using assms Inr that(3) by (simp add: stop_state_def elapsed_since_def)
  qed
qed

lemma wait_stopped_adds:
  "wait_stopped fuel ctl clk name began tr = Some (r, tr') \<Longrightarrow>
     P (Called ''query_status'') \<Longrightarrow> P Looked \<Longrightarrow> P (Slept LOOK) \<Longrightarrow> adds P tr tr'"
proof (induction fuel arbitrary: tr)
  case (Suc fuel)
  let ?next = "tr @ [Called ''query_status'', Looked, Slept LOOK]"
  from Suc.prems(1) show ?case
  proof (cases rule: wait_stopped_cases)
    case 3
    then have "adds P ?next tr'" using Suc.prems(2-4) by (intro Suc.IH)
    moreover have "adds P tr ?next" using Suc.prems(2-4) by simp
    ultimately show ?thesis by (rule adds_trans [rotated])
  qed (simp_all add: Suc.prems(2-4))
qed simp

lemma stop_windows_adds:
  assumes "stop_windows fuel ctl clk name node tr = Some step"
    and called: "P (Called ''query_status'')" "P (Called ''control'')" and looked: "P Looked" "P (Slept LOOK)"
  shows "adds P tr (snd step)"
proof (cases "has_stopped ctl tr name = Inr False
    \<and> control ctl (tr @ [Called ''query_status'']) Stop_service node = None")
  case True
  let ?asked = "tr @ [Called ''query_status'', Called ''control'', Looked]"
  have "wait_stopped fuel ctl clk name (clk (tr @ [Called ''query_status'', Called ''control''])) ?asked
        = Some (fst step, snd step)"
    using assms(1) True by (simp add: stop_windows_def stop_state_def control_node_def)
  then have "adds P ?asked (snd step)" using called(1) looked by (rule wait_stopped_adds)
  moreover have "adds P tr ?asked" using called looked by simp
  ultimately show ?thesis by (rule adds_trans [rotated])
next
  case False
  show ?thesis
  proof (cases "has_stopped ctl tr name")
    case (Inl error)
    then show ?thesis using assms(1) called by (auto simp: stop_windows_def stop_state_def)
  next
    case (Inr has)
    then show ?thesis
      using assms(1) called False
      by (cases has) (auto simp: stop_windows_def stop_state_def control_node_def)
  qed
qed

lemma delete_windows_adds: "P (Called ''delete'') \<Longrightarrow> adds P tr (snd (delete_windows ctl name tr))"
  by (simp add: delete_windows_def split: option.splits)

lemma then_do_adds_eq:
  "then_do step next = (r, tr') \<Longrightarrow> adds P tr (snd step) \<Longrightarrow> (\<And>x t. adds P t (snd (next x t))) \<Longrightarrow>
     adds P tr tr'"
  using then_do_adds [of P tr step "next"] by (metis snd_conv)

lemma deregister_adds:
  assumes "deregister fuel m os ctl clk name node tr = Some (r, tr')"
    and called: "\<And>s. P (Called s)" and looks: "os = Windows \<Longrightarrow> P Looked" "os = Windows \<Longrightarrow> P (Slept LOOK)"
    and ran: "\<And>program args. P (Ran program args)"
    and removed: "\<And>p. registration_file p \<Longrightarrow> P (Removed p)"
  shows "adds P tr tr'"
proof (cases os)
  case Windows
  then have "deregister_windows fuel ctl clk name node tr = Some (r, tr')"
    using assms(1) by (simp add: deregister_def)
  then show ?thesis
    using called looks [OF Windows]
    by (auto simp: deregister_windows_def split: opened.splits
        dest!: stop_windows_adds [where P = P] elim!: then_do_adds_eq intro: delete_windows_adds)
next
  case Linux
  then have "tr' = snd (deregister_linux m name tr)"
    using assms(1) by (auto simp: deregister_def)
  moreover have "adds P tr (snd (deregister_linux m name tr))"
    by (auto simp: deregister_linux_def Let_def ran said_removing_adds removed simp del: do_all.simps
        intro!: then_do_adds do_all_adds)
  ultimately show ?thesis by simp
next
  case MacOS
  then have "tr' = snd (deregister_macos m name tr)"
    using assms(1) by (auto simp: deregister_def)
  moreover have "adds P tr (snd (deregister_macos m name tr))"
    by (auto simp: deregister_macos_def Let_def ran said_removing_adds remove_file_adds removed
        simp del: do_all.simps intro!: then_do_adds do_all_adds)
  ultimately show ?thesis by simp
next
  case (Other_platform u)
  then show ?thesis using assms(1) by (auto simp: deregister_def)
qed

text \<open>
  C24: An uninstallation deletes nothing but the service manager's own files: every other file,
  configuration, data or audit, is as it was.
\<close>

theorem uninstall_keeps_files:
  assumes "uninstall fuel w args tr = Some (code, tr')" "\<not> registration_file p"
  shows "file_at (iw_machine w) tr' p = file_at (iw_machine w) tr p"
proof -
  obtain r t where un: "uninstalled fuel w args tr = Some (r, t)"
    and tr': "tr' = snd (ended_mode (iw_sink w) ''uninstall'' (r, t))"
    using assms(1) by (auto simp: uninstall_def)
  have recorded: "adds (leaves p) s (record_event sink action ph ps s)" for sink action ph ps s
    by (auto simp: leaves_def intro!: adds_record_event)
  have "adds (leaves p) tr t"
  proof (cases "iw_read w tr (arg_configuration args)")
    case (Inl reason)
    then show ?thesis using un by (simp add: uninstalled_def)
  next
    case (Inr document)
    let ?name = "node_service_name (iw_registration w) (doc_node document)"
    let ?t = "record_event (iw_sink w) ''uninstall'' Begin [(''service'', ?name)] tr"
    have "deregister fuel (iw_machine w) (iw_os w) (iw_control w) (iw_clock w) ?name (doc_node document) ?t
        = Some (r, t)"
      using un Inr by (simp add: uninstalled_def Let_def)
    then have "adds (leaves p) ?t t"
      by (rule deregister_adds) (use assms(2) in \<open>auto simp: leaves_def\<close>)
    with recorded show ?thesis by (rule adds_trans)
  qed
  moreover have "adds (leaves p) t (snd (ended_mode sink action (r, t)))" for sink action
    by (auto simp: ended_mode_def leaves_def intro!: adds_fail adds_record_event split: sum.splits)
  ultimately have "adds (leaves p) tr tr'" unfolding tr' by (metis adds_trans)
  then show ?thesis by (rule leaves_file)
qed

lemma wait_stopped_enough:
  assumes "lawful_clock clk"
  shows "began \<le> clk tr \<Longrightarrow> DRAIN + 1 - (clk tr - began) \<le> n * LOOK \<Longrightarrow>
    \<exists>r. wait_stopped (Suc n) ctl clk name began tr = Some r"
proof (induction n arbitrary: tr)
  case 0
  have "clk tr \<le> clk (tr @ [Called ''query_status''])"
    using assms by (rule lawful_clock_mono) simp
  then have "DRAIN < clk (tr @ [Called ''query_status'']) - began" using 0 by (simp add: DRAIN_def)
  then show ?case
    by (auto simp: stop_state_def elapsed_since_def split: sum.splits bool.splits)
next
  case (Suc n)
  let ?next = "tr @ [Called ''query_status'', Looked, Slept LOOK]"
  have "clk tr \<le> clk (tr @ [Called ''query_status'', Looked])"
    using assms by (rule lawful_clock_mono) simp
  moreover have "clk (tr @ [Called ''query_status'', Looked]) + LOOK \<le> clk ?next"
    using lawful_clock_sleep [OF assms, of "tr @ [Called ''query_status'', Looked]" LOOK] by simp
  ultimately have "began \<le> clk ?next" "DRAIN + 1 - (clk ?next - began) \<le> n * LOOK"
    using Suc.prems by simp_all
  from Suc.IH [OF this] obtain r where
    "wait_stopped (Suc n) ctl clk name began ?next = Some r" by blast
  then show ?case
    by (auto simp: stop_state_def elapsed_since_def split: sum.splits bool.splits
        simp del: wait_stopped.simps(2) simp: wait_stopped.simps(2) [of "Suc n"])
qed

lemma wait_stopped_returns:
  assumes "lawful_clock clk" "DRAIN_LOOKS \<le> fuel"
  shows "wait_stopped fuel ctl clk name (clk t) (t @ [Looked]) \<noteq> None"
proof -
  obtain n where n: "fuel = Suc n" "3001 \<le> n"
    using assms(2) by (cases fuel) (auto simp: DRAIN_LOOKS_def)
  have "clk t \<le> clk (t @ [Looked])" using assms(1) by (rule lawful_clock_mono) simp
  moreover have "DRAIN + 1 - (clk (t @ [Looked]) - clk t) \<le> n * LOOK"
  proof -
    have "3001 * LOOK \<le> n * LOOK" using n(2) by (rule mult_le_mono1)
    then show ?thesis by (simp add: DRAIN_def LOOK_def)
  qed
  ultimately have "\<exists>r. wait_stopped (Suc n) ctl clk name (clk t) (t @ [Looked]) = Some r"
    by (rule wait_stopped_enough [OF assms(1)])
  then show ?thesis using n(1) by (metis option.distinct(1))
qed

lemma uninstalled_ends:
  assumes "lawful_clock (iw_clock w)" "DRAIN_LOOKS \<le> fuel"
  shows "\<exists>x. uninstalled fuel w args tr = Some x"
proof -
  have "deregister fuel m os ctl (iw_clock w) name node t \<noteq> None" for m os ctl name node t
    by (auto simp: deregister_def deregister_windows_def stop_windows_def
        wait_stopped_returns [OF assms] simp del: not_None_eq
        split: platform.splits opened.splits sum.splits bool.splits prod.splits)
  then have "uninstalled fuel w args tr \<noteq> None"
    by (simp add: uninstalled_def Let_def del: not_None_eq split: sum.splits)
  then show ?thesis by blast
qed

lemma wait_stopped_settles: "settles (\<lambda>fuel. wait_stopped fuel ctl clk name began tr)"
proof (rule settlesI)
  fix fuel r
  show "wait_stopped fuel ctl clk name began tr = Some r \<Longrightarrow>
      wait_stopped (Suc fuel) ctl clk name began tr = Some r"
  proof (induction fuel arbitrary: tr)
    case (Suc fuel)
    let ?looked = "tr @ [Called ''query_status'', Looked, Slept LOOK]"
    note unfold = wait_stopped.simps(2) [of _ ctl clk name began tr]
    show ?case
    proof (cases "has_stopped ctl tr name")
      case (Inr has)
      then show ?thesis
        using Suc.prems Suc.IH [of ?looked]
        by (cases has) (auto simp: unfold stop_state_def elapsed_since_def simp del: wait_stopped.simps(2)
          split: if_splits)
    qed (use Suc.prems in \<open>simp add: stop_state_def\<close>)
  qed simp
qed

lemma stop_windows_settles: "settles (\<lambda>fuel. stop_windows fuel ctl clk name node tr)"
proof (cases "has_stopped ctl tr name")
  case (Inl error)
  then show ?thesis by (simp add: stop_windows_def stop_state_def settles_const)
next
  case (Inr has)
  then show ?thesis
    by (cases has; cases "control ctl (tr @ [Called ''query_status'']) Stop_service node")
       (simp_all add: stop_windows_def stop_state_def control_node_def settles_const wait_stopped_settles)
qed

lemma deregister_settles: "settles (\<lambda>fuel. deregister fuel m os ctl clk name node tr)"
  by (cases os; cases "open_service ctl tr name")
     (simp_all add: deregister_def deregister_windows_def settles_const settles_map stop_windows_settles)

lemma uninstall_settles [settling]: "settles (\<lambda>fuel. uninstall fuel w args tr)"
  unfolding uninstall_def
  by (cases "iw_read w tr (arg_configuration args)")
     (simp_all add: uninstalled_def Let_def settles_const settles_map deregister_settles)

text \<open>The fuel bounds the sleeps, and so how long the removal waits for a drain.\<close>

definition sleeps :: "trace \<Rightarrow> nat" where
  "sleeps tr = length (filter (\<lambda>e. e = Slept LOOK) tr)"

lemma sleeps_simps [simp]:
  "sleeps [] = 0" "sleeps (Slept LOOK # es) = Suc (sleeps es)" "e \<noteq> Slept LOOK \<Longrightarrow> sleeps (e # es) = sleeps es"
  "sleeps (xs @ ys) = sleeps xs + sleeps ys"
  by (simp_all add: sleeps_def)

lemma sleeps_none: "adds (\<lambda>e. e \<noteq> Slept LOOK) tr tr' \<Longrightarrow> sleeps tr' = sleeps tr"
  by (auto simp: adds_def sleeps_def list_all_iff filter_empty_conv)

lemma wait_stopped_sleeps:
  "wait_stopped fuel ctl clk name began tr = Some (r, tr') \<Longrightarrow> sleeps tr' < sleeps tr + fuel"
proof (induction fuel arbitrary: tr)
  case (Suc fuel)
  from Suc.prems show ?case
  proof (cases rule: wait_stopped_cases)
    case 3
    then show ?thesis using Suc.IH by fastforce
  qed simp_all
qed simp

lemma stop_windows_sleeps:
  assumes "stop_windows fuel ctl clk name node tr = Some step" "0 < fuel"
  shows "sleeps (snd step) < sleeps tr + fuel"
proof (cases "has_stopped ctl tr name = Inr False
    \<and> control ctl (tr @ [Called ''query_status'']) Stop_service node = None")
  case True
  then have "wait_stopped fuel ctl clk name (clk (tr @ [Called ''query_status'', Called ''control'']))
      (tr @ [Called ''query_status'', Called ''control'', Looked]) = Some (fst step, snd step)"
    using assms(1) by (simp add: stop_windows_def stop_state_def control_node_def)
  from wait_stopped_sleeps [OF this] show ?thesis by simp
next
  case False
  then show ?thesis
    using assms
    by (cases "has_stopped ctl tr name")
       (auto simp: stop_windows_def stop_state_def control_node_def split: bool.splits option.splits)
qed

lemma deregister_sleeps:
  assumes "deregister fuel m os ctl clk name node tr = Some (r, tr')" "0 < fuel"
  shows "sleeps tr' < sleeps tr + fuel"
proof (cases "os = Windows \<and> open_service ctl tr name = Opened")
  case True
  then obtain step where step: "stop_windows fuel ctl clk name node tr = Some step"
    and del: "then_do step (\<lambda>_. delete_windows ctl name) = (r, tr')"
    using assms(1) by (auto simp: deregister_def deregister_windows_def)
  have "adds (\<lambda>e. e \<noteq> Slept LOOK) (snd step) tr'"
    using del by (rule then_do_adds_eq) (simp_all add: delete_windows_adds)
  then show ?thesis using stop_windows_sleeps [OF step assms(2)] sleeps_none by metis
next
  case False
  have "adds (\<lambda>e. e \<noteq> Slept LOOK) tr tr'"
  proof (cases "os = Windows")
    case True
    then show ?thesis
      using False assms(1) by (auto simp: deregister_def deregister_windows_def split: opened.splits)
  next
    case False
    then show ?thesis by (intro deregister_adds [OF assms(1)]) simp_all
  qed
  then show ?thesis using assms(2) sleeps_none by fastforce
qed

lemma record_event_sleeps [simp]: "sleeps (record_event sink action p ps tr) = sleeps tr"
  by (rule sleeps_none) (auto intro!: adds_record_event)

lemma ended_mode_sleeps: "sleeps (snd (ended_mode sink action (r, tr))) = sleeps tr"
  by (rule sleeps_none) (auto simp: ended_mode_def intro!: adds_fail adds_record_event adds_more split: sum.splits)

lemma uninstalled_sleeps:
  assumes "uninstalled fuel w args tr = Some (r, t)" "0 < fuel"
  shows "sleeps t < sleeps tr + fuel"
proof (cases "iw_read w tr (arg_configuration args)")
  case (Inr document)
  then show ?thesis
    using assms by (auto simp: uninstalled_def Let_def dest!: deregister_sleeps)
qed (use assms in \<open>simp add: uninstalled_def\<close>)

lemma uninstalled_failures:
  assumes "uninstalled fuel w args tr = Some (r, t)"
  shows "failures t = failures tr"
proof (cases "iw_read w tr (arg_configuration args)")
  case (Inl reason)
  then show ?thesis using assms by (simp add: uninstalled_def)
next
  case (Inr document)
  let ?name = "node_service_name (iw_registration w) (doc_node document)"
  let ?t = "record_event (iw_sink w) ''uninstall'' Begin [(''service'', ?name)] tr"
  have "deregister fuel (iw_machine w) (iw_os w) (iw_control w) (iw_clock w) ?name
      (doc_node document) ?t = Some (r, t)"
    using assms Inr by (simp add: uninstalled_def Let_def)
  then have "adds (\<lambda>e. failed_action e = None) ?t t" by (rule deregister_adds) simp_all
  then obtain es where "t = ?t @ es" "list_all (\<lambda>e. failed_action e = None) es"
    by (auto simp: adds_def)
  moreover have "list_all (\<lambda>e. failed_action e = None) es \<Longrightarrow> failures es = []" for es
    by (induction es) simp_all
  ultimately show ?thesis by simp
qed

text \<open>
  C25: An uninstallation ends: under every lawful clock \<open>DRAIN_LOOKS\<close> looks at a service that drains
  are enough, with any more it ends the same, and it slept fewer times than that; it exits 0 or
  \<open>REFUSED\<close>, a refusal audited as one failure of \<open>uninstall\<close>.
\<close>

theorem uninstall_ends:
  assumes "lawful_clock (iw_clock w)"
  shows "\<exists>code tr'. (\<forall>fuel \<ge> DRAIN_LOOKS. uninstall fuel w args tr = Some (code, tr'))
     \<and> code \<in> {SUCCESS, REFUSED} \<and> sleeps tr' < sleeps tr + DRAIN_LOOKS
     \<and> failures tr' = failures tr @ (if code = REFUSED then [''uninstall''] else [])"
proof -
  obtain r t where run: "uninstalled DRAIN_LOOKS w args tr = Some (r, t)"
    using uninstalled_ends [OF assms order.refl] by (metis surj_pair)
  let ?finish = "ended_mode (iw_sink w) ''uninstall'' (r, t)"
  have "uninstall DRAIN_LOOKS w args tr = Some ?finish" using run by (simp add: uninstall_def)
  then have "\<forall>fuel \<ge> DRAIN_LOOKS. uninstall fuel w args tr = Some ?finish"
    using settlesD [OF uninstall_settles] by blast
  moreover have "failures t = failures tr" using run by (rule uninstalled_failures)
  moreover have "sleeps (snd ?finish) < sleeps tr + DRAIN_LOOKS"
    using uninstalled_sleeps [OF run] by (simp add: ended_mode_sleeps DRAIN_LOOKS_def)
  moreover have "fst ?finish \<in> {SUCCESS, REFUSED}
      \<and> failures (snd ?finish) = failures t @ (if fst ?finish = REFUSED then [''uninstall''] else [])"
    by (auto simp: ended_mode_def split: sum.splits)
  ultimately show ?thesis by (intro exI [of _ "fst ?finish"] exI [of _ "snd ?finish"]) simp
qed

section \<open>Removing on Windows\<close>

text \<open>A service was deleted last, right after it was seen stopped, and was not asked to stop twice.\<close>

definition deleted_when_stopped :: "control_api \<Rightarrow> string \<Rightarrow> trace \<Rightarrow> trace \<Rightarrow> bool" where
  "deleted_when_stopped ctl name tr es \<longleftrightarrow>
     (let qs = butlast (butlast es) in
        es = qs @ [Called ''query_status'', Called ''delete'']
        \<and> Called ''delete'' \<notin> set qs
        \<and> has_stopped ctl (tr @ qs) name = Inr True)"

abbreviation asks_stop :: "effect \<Rightarrow> bool" where
  "asks_stop e \<equiv> e = Called ''control''"

abbreviation stop_asked :: "trace \<Rightarrow> nat" where
  "stop_asked es \<equiv> length (filter asks_stop es)"

abbreviation only_looks :: "effect \<Rightarrow> bool" where
  "only_looks e \<equiv> e \<noteq> Called ''control'' \<and> e \<noteq> Called ''delete''"

lemma only_looks_asks_nothing: "list_all only_looks es \<Longrightarrow> stop_asked es = 0 \<and> Called ''delete'' \<notin> set es"
  by (auto simp: list_all_iff filter_empty_conv)

lemma wait_stopped_seen:
  "wait_stopped fuel ctl clk name began tr = Some (Inr (), tr') \<Longrightarrow>
     \<exists>qs. tr' = tr @ qs @ [Called ''query_status''] \<and> list_all only_looks qs
        \<and> has_stopped ctl (tr @ qs) name = Inr True"
proof (induction fuel arbitrary: tr)
  case (Suc fuel)
  let ?looked = "[Called ''query_status'', Looked, Slept LOOK]"
  obtain has where has: "has_stopped ctl tr name = Inr has"
    using Suc.prems by (cases "has_stopped ctl tr name") (simp_all add: stop_state_def)
  show ?case
  proof (cases has)
    case True
    then show ?thesis
      using Suc.prems has by (intro exI [of _ "[]"]) (auto simp: stop_state_def)
  next
    case False
    then have "wait_stopped fuel ctl clk name began (tr @ ?looked) = Some (Inr (), tr')"
      using Suc.prems has by (simp add: stop_state_def elapsed_since_def split: if_splits)
    then obtain qs where "tr' = (tr @ ?looked) @ qs @ [Called ''query_status'']" "list_all only_looks qs"
        "has_stopped ctl ((tr @ ?looked) @ qs) name = Inr True"
      using Suc.IH by blast
    then show ?thesis by (intro exI [of _ "?looked @ qs"]) simp
  qed
qed simp

text \<open>A stop that was asked for ends with the service seen stopped, or refused with nothing deleted.\<close>

lemma stop_windows_seen:
  assumes "stop_windows fuel ctl clk name node tr = Some (r, tr')"
  shows "\<exists>es. tr' = tr @ es \<and> stop_asked es \<le> 1 \<and> Called ''delete'' \<notin> set es
     \<and> (\<forall>x. r = Inr x \<longrightarrow> (\<exists>qs. es = qs @ [Called ''query_status''] \<and> has_stopped ctl (tr @ qs) name = Inr True))"
proof (cases "has_stopped ctl tr name = Inr False
    \<and> control ctl (tr @ [Called ''query_status'']) Stop_service node = None")
  case True
  let ?asked = "[Called ''query_status'', Called ''control'', Looked]"
  have run: "wait_stopped fuel ctl clk name (clk (tr @ [Called ''query_status'', Called ''control'']))
      (tr @ ?asked) = Some (r, tr')"
    using assms True by (simp add: stop_windows_def stop_state_def control_node_def)
  then have "adds only_looks (tr @ ?asked) tr'" by (rule wait_stopped_adds) simp_all
  then obtain es where es: "tr' = (tr @ ?asked) @ es" "stop_asked es = 0" "Called ''delete'' \<notin> set es"
    using only_looks_asks_nothing by (auto simp: adds_def)
  have "\<exists>qs. es = qs @ [Called ''query_status''] \<and> has_stopped ctl ((tr @ ?asked) @ qs) name = Inr True"
    if "r = Inr x" for x
    using wait_stopped_seen [of fuel ctl clk name _ "tr @ ?asked" tr'] run that es(1) by auto
  then have "\<exists>qs. ?asked @ es = qs @ [Called ''query_status''] \<and> has_stopped ctl (tr @ qs) name = Inr True"
    if "r = Inr x" for x
    using that by (metis append.assoc)
  with es show ?thesis by (intro exI [of _ "?asked @ es"]) simp
next
  case False
  then show ?thesis
    using assms
    by (cases "has_stopped ctl tr name")
       (auto simp: stop_windows_def stop_state_def control_node_def split: bool.splits option.splits)
qed

lemma removed_on_windows:
  assumes "deregister fuel m Windows ctl clk name node tr = Some (r, tr')"
  shows "\<exists>es. tr' = tr @ es \<and> stop_asked es \<le> 1
     \<and> (Called ''delete'' \<in> set es \<longrightarrow>
          deleted_when_stopped ctl name tr es
          \<and> (isl r \<longleftrightarrow> delete_service ctl (tr @ butlast es) name \<noteq> None))
     \<and> (\<forall>said. r = Inr said \<longrightarrow>
          said = absent_words name \<and> es = [] \<and> open_service ctl tr name = No_such_service
        \<or> said = removed_words name \<and> Called ''delete'' \<in> set es)"
proof (cases "open_service ctl tr name")
  case Opened
  then obtain step where step: "stop_windows fuel ctl clk name node tr = Some step"
    and then_del: "then_do step (\<lambda>_. delete_windows ctl name) = (r, tr')"
    using assms by (auto simp: deregister_def deregister_windows_def)
  obtain r1 tr1 where r1: "step = (r1, tr1)" by (cases step)
  from stop_windows_seen [OF step [unfolded r1]] obtain es where
    es: "tr1 = tr @ es" "stop_asked es \<le> 1" "Called ''delete'' \<notin> set es"
    and seen: "\<And>x. r1 = Inr x \<Longrightarrow>
      \<exists>qs. es = qs @ [Called ''query_status''] \<and> has_stopped ctl (tr @ qs) name = Inr True" by blast
  show ?thesis
  proof (cases r1)
    case (Inl problem)
    then show ?thesis using then_del r1 es by (intro exI [of _ es]) auto
  next
    case (Inr x)
    then obtain qs where qs: "es = qs @ [Called ''query_status'']" "has_stopped ctl (tr @ qs) name = Inr True"
      using seen by blast
    have "deleted_when_stopped ctl name tr (es @ [Called ''delete''])"
      using es(3) qs by (simp add: deleted_when_stopped_def butlast_append)
    then show ?thesis
      using then_del r1 es Inr
      by (intro exI [of _ "es @ [Called ''delete'']"])
         (auto simp: delete_windows_def split: option.splits)
  qed
qed (use assms in \<open>auto simp: deregister_def deregister_windows_def\<close>)

text \<open>
  C35: On Windows a service is deleted only once it was seen stopped: the deletion comes last, right
  behind the look that saw it, after at most one stop was asked for.  A removal accepted says that it
  was removed, which it was, or that no such service is registered, and then it did nothing; one
  refused (it would not stop within \<open>DRAIN\<close>, a look or the stop was refused) deleted nothing, unless
  the deletion itself was refused.
\<close>

theorem windows_deletes_only_the_stopped:
  assumes "deregister fuel m Windows ctl clk name node tr = Some (r, tr')"
  shows "\<exists>es. tr' = tr @ es \<and> stop_asked es \<le> 1
     \<and> (Called ''delete'' \<in> set es \<longrightarrow>
          deleted_when_stopped ctl name tr es
          \<and> (isl r \<longleftrightarrow> delete_service ctl (tr @ butlast es) name \<noteq> None))
     \<and> (\<forall>said. r = Inr said \<longrightarrow>
          said = absent_words name \<and> es = [] \<and> open_service ctl tr name = No_such_service
        \<or> said = removed_words name \<and> Called ''delete'' \<in> set es)"
  using assms by (rule removed_on_windows)

section \<open>An installation where there is nothing\<close>

lemma exists_after_made:
  "exists_at m (tr @ [Made q]) p \<longleftrightarrow>
     exists_at m tr p \<or> rooted q = rooted p \<and> prefix (parts p) (parts q)"
  by (auto simp: exists_at_def file_at_def folder_made_def)

lemma exists_recorded [simp]: "exists_at m (record_event sink a ph ps tr) p = exists_at m tr p"
  by (auto simp: record_event_def kept_def Let_def exists_at_def file_at_def folder_made_def
      split: option.splits)

lemma exists_made:
  assumes "parent p = Some q" "make_folders m q tr = (Inr (), t)" "\<not> exists_at m tr p"
  shows "\<not> exists_at m t p"
proof -
  have "parts p \<noteq> []" "parts q = butlast (parts p)"
    using assms(1) by (auto simp: parent_def split: if_splits)
  then have "length (parts q) < length (parts p)" by simp
  then have "\<not> prefix (parts p) (parts q)" by (auto dest: prefix_length_le)
  then show ?thesis
    using assms(2,3) by (auto simp: make_folders_def exists_after_made split: if_splits option.splits)
qed

lemma lay_node_fresh:
  assumes "\<not> exists_at (iw_machine w) tr cluster_file" "\<not> exists_at (iw_machine w) tr node_file"
    and "lay_node w cluster node cluster_file node_file tr = (Inr (), t)"
    and source: "source = starter (iw_registration w) cluster node"
  shows "\<exists>t1 slice signed_slice. lay_slice (iw_slicing w) cluster node source = Inr slice
     \<and> signed_beside (iw_slicing w) t1 node_file cluster source slice = Inr signed_slice
     \<and> t = tr @ [Saved cluster_file source, Saved node_file signed_slice]"
  using assms(1-3)
  by (auto simp: lay_node_def Let_def then_do_Inr write_file_then read_to_string_def file_at_def
      and_then_Inr_iff source split: sum.splits option.splits)

text \<open>The stages of an installation that was accepted, and what none after the layout changes.\<close>

lemma install_stages:
  assumes "install w args tr = (SUCCESS, tr')" "parent (path_of (arg_configuration args)) = Some at"
  obtains node cluster said t1 t2 t where
    "arg_node args = Some node" "arg_cluster args = Some cluster"
    "make_folders (iw_machine w) at (record_event (iw_sink w) ''install'' Begin [(''node'', node)] tr) = (Inr (), t1)"
    "lay_node w cluster node (path_of (arg_configuration args)) (join_path at (path_of NODE_FILE)) t1 = (Inr (), t2)"
    "set_up_service w args at (join_path at (path_of NODE_FILE)) t2 = (Inr said, t)"
    "tr' = snd (ended_mode (iw_sink w) ''install'' (Inr said, t))"
    "\<And>p. \<not> registration_file p \<Longrightarrow> file_at (iw_machine w) tr' p = file_at (iw_machine w) t2 p"
proof -
  obtain said t where did: "installed w args tr = (Inr said, t)"
    and tr': "tr' = snd (ended_mode (iw_sink w) ''install'' (Inr said, t))"
    using assms(1) by (auto simp: install_def ended_mode_def split: sum.splits prod.splits)
  obtain node cluster where names: "arg_node args = Some node" "arg_cluster args = Some cluster"
    using did by (auto simp: installed_def split: option.splits)
  obtain t1 t2 where stages:
    "make_folders (iw_machine w) at (record_event (iw_sink w) ''install'' Begin [(''node'', node)] tr) = (Inr (), t1)"
    "lay_node w cluster node (path_of (arg_configuration args)) (join_path at (path_of NODE_FILE)) t1 = (Inr (), t2)"
    "set_up_service w args at (join_path at (path_of NODE_FILE)) t2 = (Inr said, t)"
    using did by (auto simp: installed_def names Let_def then_do_Inr assms(2))
  have "file_at (iw_machine w) tr' p = file_at (iw_machine w) t2 p" if "\<not> registration_file p" for p
  proof (rule leaves_file)
    have "adds (leaves p) t2 (snd (set_up_service w args at (join_path at (path_of NODE_FILE)) t2))"
      using that by (intro set_up_adds) (auto simp: leaves_def)
    then have "adds (leaves p) t2 t" by (simp add: stages(3))
    moreover have "adds (leaves p) t tr'"
      unfolding tr' by (auto simp: ended_mode_def leaves_def intro!: adds_record_event adds_more)
    ultimately show "adds (leaves p) t2 tr'" by (rule adds_trans)
  qed
  with names stages tr' that show ?thesis by blast
qed

lemma node_file_in: "parent (join_path at (path_of NODE_FILE)) = Some at"
  using parent_join [of NODE_FILE at]
  by (simp add: NODE_FILE_def is_part_def path_of_def starts_with_def Let_def)

text \<open>
  C23: Where there is neither a cluster's file nor a node's configuration, an installation that exits
  0 leaves both: the cluster's file is the starter that names the cluster and the node, and the
  node's configuration is the starter's slice for that node, signed beside it.
\<close>

theorem install_lays_a_node_out:
  assumes "install w args tr = (SUCCESS, tr')" "arg_node args = Some node" "arg_cluster args = Some cluster"
    and places: "cluster_file = path_of (arg_configuration args)" "parent cluster_file = Some at"
      "node_file = join_path at (path_of NODE_FILE)" "node_file \<noteq> cluster_file"
      "\<not> registration_file cluster_file" "\<not> registration_file node_file"
    and fresh: "\<not> exists_at (iw_machine w) tr cluster_file" "\<not> exists_at (iw_machine w) tr node_file"
    and source: "source = starter (iw_registration w) cluster node"
  shows "file_at (iw_machine w) tr' cluster_file = Some source
     \<and> (\<exists>t slice signed_slice. lay_slice (iw_slicing w) cluster node source = Inr slice
          \<and> signed_beside (iw_slicing w) t node_file cluster source slice = Inr signed_slice
          \<and> file_at (iw_machine w) tr' node_file = Some signed_slice)"
proof -
  let ?m = "iw_machine w"
  have conf: "parent (path_of (arg_configuration args)) = Some at" using places(1,2) by simp
  obtain t1 t2 where made: "make_folders ?m at (record_event (iw_sink w) ''install'' Begin [(''node'', node)] tr)
        = (Inr (), t1)"
    and lay: "lay_node w cluster node cluster_file node_file t1 = (Inr (), t2)"
    and kept_file: "\<And>p. \<not> registration_file p \<Longrightarrow> file_at ?m tr' p = file_at ?m t2 p"
    using assms(1) conf by (rule install_stages) (use assms(2,3) places(1,3) in auto)
  have absent: "\<not> exists_at ?m t1 cluster_file" "\<not> exists_at ?m t1 node_file"
    using exists_made [OF places(2) made] exists_made [OF _ made] fresh node_file_in places(3) by simp_all
  obtain t0 slice signed_slice where laid: "lay_slice (iw_slicing w) cluster node source = Inr slice"
      "signed_beside (iw_slicing w) t0 node_file cluster source slice = Inr signed_slice"
      "t2 = t1 @ [Saved cluster_file source, Saved node_file signed_slice]"
    using lay_node_fresh [OF absent lay source] by blast
  have "file_at ?m t2 cluster_file = Some source" "file_at ?m t2 node_file = Some signed_slice"
    using places(4) by (simp_all add: laid(3) file_at_def)
  with kept_file places(5,6) laid(1,2) show ?thesis by metis
qed

section \<open>An installation\<close>

text \<open>A machine with no file, every folder and program willing, and a node in its starter.\<close>

definition plain_machine :: machine where
  "plain_machine =
     \<lparr>files_first = \<lambda>_. None, folders_first = \<lambda>_. False, no_such_file = ''no such file'',
      write_error = \<lambda>_ _. None, read_error = \<lambda>_ _. None, remove_error = \<lambda>_ _. None,
      folder_error = \<lambda>_ _. None,
      run_program = \<lambda>_ _ _. Inr \<lparr>ran_code = Some 0, ran_stdout = [], ran_stderr = []\<rparr>\<rparr>"

definition plain_slicing :: slicing where
  "plain_slicing =
     \<lparr>at_far_end = \<lambda>cluster _ _. Inr cluster, slice_named = \<lambda>_ node _. Inr (''slice of '' @ node),
      slice_of = \<lambda>_ node. Inr (''slice of '' @ node), cluster_name = \<lambda>_. Inr None,
      signed_by_kept = \<lambda>_ _ _ _ slice. Inr (''signed '' @ slice),
      signed_beside = \<lambda>_ _ _ _ slice. Inr (''signed '' @ slice)\<rparr>"

definition plain_control :: control_api where
  "plain_control =
     \<lparr>control = \<lambda>_ _ _. None, open_service = \<lambda>_ _. Opened, has_stopped = \<lambda>_ _. Inr True,
      delete_service = \<lambda>_ _. None\<rparr>"

definition plain_install :: "(unit, string \<times> string) install_world" where
  "plain_install =
     \<lparr>iw_machine = plain_machine, iw_os = Linux, iw_control = plain_control,
      iw_registration = plain_registration, iw_slicing = plain_slicing,
      iw_read = \<lambda>_ _. Inr
        \<lparr>doc_node = ''N'', doc_data_directory = \<lambda>_. path_of ''/data'', doc_roles = None,
         doc_operate = None, doc_storage_listen = None, doc_provision = \<lambda>_. None,
         doc_receive = [], doc_applications = []\<rparr>,
      iw_process = \<lparr>current_exe = Inr (path_of ''/opt/xmip/bin/xmip-service''), current_dir = path_of ''/''\<rparr>,
      iw_sink = \<lambda>_ _. None, iw_clock = logical_clock\<rparr>"

definition install_args :: arguments where
  "install_args =
     \<lparr>arg_configuration = ''/x/c/cluster.xmip'', arg_mode = Install, arg_purpose = Runtime,
      arg_node = Some ''N'', arg_cluster = Some ''C'', arg_account = Some ''xmip'', arg_bind = None,
      arg_nodes = [], arg_authority = None\<rparr>"

lemma plain_installs: "fst (install plain_install install_args []) = SUCCESS"
  by code_simp

lemma plain_places:
  "path_of ''/x/c/cluster.xmip'' = Path True [''x'', ''c'', ''cluster.xmip'']"
  "parent (Path True [''x'', ''c'', ''cluster.xmip'']) = Some (Path True [''x'', ''c''])"
  "join_path (Path True [''x'', ''c'']) (path_of NODE_FILE) = Path True [''x'', ''c'', ''node.xmip'']"
  "\<not> registration_file (Path True [''x'', ''c'', ''cluster.xmip''])"
  "\<not> registration_file (Path True [''x'', ''c'', ''node.xmip''])"
  "\<not> exists_at (iw_machine plain_install) [] p"
  by (simp_all add: path_of_def starts_with_def Let_def parent_def join_path_def NODE_FILE_def
      uncurrent_def registration_file_def exists_at_def file_at_def folder_made_def plain_install_def
      plain_machine_def)

theorem install_lays_a_node_out_witness:
  "file_at plain_machine (snd (install plain_install install_args [])) (Path True [''x'', ''c'', ''cluster.xmip''])
     = Some (starter plain_registration ''C'' ''N'')
   \<and> file_at plain_machine (snd (install plain_install install_args [])) (Path True [''x'', ''c'', ''node.xmip''])
     = Some ''signed slice of N''"
proof -
  have run: "install plain_install install_args [] = (SUCCESS, snd (install plain_install install_args []))"
    using plain_installs by (metis prod.collapse)
  have parts: "iw_machine plain_install = plain_machine" "iw_registration plain_install = plain_registration"
      "iw_slicing plain_install = plain_slicing"
    by (simp_all add: plain_install_def)
  have signed_as: "signed_beside plain_slicing t p c s x = Inr (''signed '' @ x)"
      "lay_slice plain_slicing ''C'' ''N'' source = Inr ''slice of N''" for t p c s x source
    by (simp_all add: plain_slicing_def lay_slice_def)
  have "file_at plain_machine (snd (install plain_install install_args [])) (Path True [''x'', ''c'', ''cluster.xmip''])
     = Some (starter plain_registration ''C'' ''N'')
   \<and> (\<exists>t slice signed_slice. lay_slice plain_slicing ''C'' ''N'' (starter plain_registration ''C'' ''N'') = Inr slice
      \<and> signed_beside plain_slicing t (Path True [''x'', ''c'', ''node.xmip'']) ''C''
          (starter plain_registration ''C'' ''N'') slice = Inr signed_slice
      \<and> file_at plain_machine (snd (install plain_install install_args [])) (Path True [''x'', ''c'', ''node.xmip''])
          = Some signed_slice)"
    using install_lays_a_node_out [OF run, of "''N''" "''C''" "Path True [''x'', ''c'', ''cluster.xmip'']"
        "Path True [''x'', ''c'']" "Path True [''x'', ''c'', ''node.xmip'']"] plain_places
    by (simp add: install_args_def parts)
  then show ?thesis by (auto simp: signed_as)
qed

theorem install_never_overwrites_witness:
  "file_at plain_machine (snd (install plain_install install_args
      [Saved (path_of ''/x/c/cluster.xmip'') ''mine''])) (path_of ''/x/c/cluster.xmip'') = Some ''mine''"
proof -
  let ?p = "path_of ''/x/c/cluster.xmip''"
  have there: "file_at (iw_machine plain_install) [Saved ?p ''mine''] ?p = Some ''mine''"
    by (simp add: file_at_def)
  have other: "\<not> registration_file ?p" using plain_places by simp
  show ?thesis
    using install_never_overwrites [OF _ other, of plain_install "[Saved ?p ''mine'']" install_args] there
    by (simp add: plain_install_def)
qed

definition plain_given :: "given_folder list" where
  "plain_given =
     [\<lparr>folder = path_of ''/x/c'', access = Reads\<rparr>, \<lparr>folder = path_of ''/data'', access = Writes\<rparr>]"

lemma plain_registers:
  "fst (register plain_machine Linux plain_control plain_registration (''xmip-N'', ''xmip'') ''N''
     plain_given [Made (path_of ''/data'')]) = Inr ()"
  by code_simp

theorem register_linux_in_order_witness:
  "Ran ''chown'' [''-R'', ''xmip'', ''/data''] \<in> set (snd (register plain_machine Linux plain_control
     plain_registration (''xmip-N'', ''xmip'') ''N'' plain_given [Made (path_of ''/data'')]))"
proof -
  let ?r = "register plain_machine Linux plain_control plain_registration (''xmip-N'', ''xmip'') ''N''
     plain_given [Made (path_of ''/data'')]"
  have "?r = (Inr (), snd ?r)" using plain_registers by (metis prod.collapse)
  from register_linux_in_order [OF this] show ?thesis
    by (simp add: plain_registration_def owned_def plain_given_def exists_at_def folder_made_def
        path_of_def starts_with_def Let_def display_def)
qed

lemma plain_registers_macos:
  "fst (register plain_machine MacOS plain_control plain_registration (''xmip-N'', ''xmip'') ''N''
     plain_given [Made (path_of ''/data'')]) = Inr ()"
  by code_simp

theorem register_macos_in_order_witness:
  "Ran ''chown'' [''-R'', ''xmip'', ''/data''] \<in> set (snd (register plain_machine MacOS plain_control
     plain_registration (''xmip-N'', ''xmip'') ''N'' plain_given [Made (path_of ''/data'')]))"
proof -
  let ?r = "register plain_machine MacOS plain_control plain_registration (''xmip-N'', ''xmip'') ''N''
     plain_given [Made (path_of ''/data'')]"
  have "?r = (Inr (), snd ?r)" using plain_registers_macos by (metis prod.collapse)
  from register_macos_in_order [OF this] show ?thesis
    by (simp add: plain_registration_def owned_def plain_given_def exists_at_def folder_made_def
        path_of_def starts_with_def Let_def display_def)
qed

theorem uninstall_keeps_files_witness:
  "\<exists>code tr'. uninstall 1 plain_install install_args [Saved (path_of ''/x/c/node.xmip'') ''mine'']
       = Some (code, tr')
     \<and> file_at plain_machine tr' (path_of ''/x/c/node.xmip'') = Some ''mine''"
proof -
  let ?p = "path_of ''/x/c/node.xmip''"
  have "uninstall 1 plain_install install_args [Saved ?p ''mine''] \<noteq> None"
    by (simp add: uninstall_def uninstalled_def deregister_def plain_install_def Let_def)
  then obtain code tr' where run:
      "uninstall 1 plain_install install_args [Saved ?p ''mine''] = Some (code, tr')" by auto
  have other: "\<not> registration_file ?p"
    by (simp add: path_of_def starts_with_def Let_def registration_file_def)
  from uninstall_keeps_files [OF run other] run show ?thesis
    by (simp add: plain_install_def file_at_def)
qed

theorem uninstall_ends_witness:
  "\<exists>code tr'. uninstall DRAIN_LOOKS (plain_install\<lparr>iw_os := Windows\<rparr>) install_args [] = Some (code, tr')
     \<and> code \<in> {SUCCESS, REFUSED}"
proof -
  have "lawful_clock (iw_clock (plain_install\<lparr>iw_os := Windows\<rparr>))"
    by (simp add: plain_install_def logical_clock_lawful)
  from uninstall_ends [OF this, of install_args "[]"] show ?thesis by blast
qed

text \<open>A service that has stopped at the third look.\<close>

definition draining_control :: control_api where
  "draining_control =
     \<lparr>control = \<lambda>_ _ _. None, open_service = \<lambda>_ _. Opened,
      has_stopped = \<lambda>tr _. Inr (1 < length (filter ((=) (Called ''query_status'')) tr)),
      delete_service = \<lambda>_ _. None\<rparr>"

theorem windows_deletes_only_the_stopped_witness:
  "\<exists>tr'. deregister 2 plain_machine Windows draining_control logical_clock ''xmip-N'' ''N'' []
      = Some (Inr (removed_words ''xmip-N''), tr')
     \<and> deleted_when_stopped draining_control ''xmip-N'' [] tr' \<and> stop_asked tr' = 1"
proof -
  let ?looks = "[Called ''query_status'', Called ''control'', Looked, Called ''query_status'', Looked, Slept LOOK,
     Called ''query_status'', Called ''delete'']"
  have run: "deregister 2 plain_machine Windows draining_control logical_clock ''xmip-N'' ''N'' []
      = Some (Inr (removed_words ''xmip-N''), ?looks)"
    by (simp add: deregister_def deregister_windows_def stop_windows_def stop_state_def control_node_def
        elapsed_since_def delete_windows_def draining_control_def numeral_2_eq_2 logical_clock_def LOOK_def DRAIN_def)
  from windows_deletes_only_the_stopped [OF run] have "deleted_when_stopped draining_control ''xmip-N'' [] ?looks"
    by simp
  with run show ?thesis by (intro exI [of _ ?looks]) simp
qed

end
