(* ===== verification/Round_Trip.thy ===== *)
theory Round_Trip
  imports Installation
begin

text \<open>
  An installation and the uninstallation of what it registered, on the platforms whose service manager
  keeps a file for each service.  What \<open>register\<close> and \<open>deregister\<close> promise each other is the locale
  \<open>registrar\<close>, interpreted on systemd's and on launchd's; over it an installation that is undone
  leaves no registration and every file else as it was.
\<close>

section \<open>A registrar\<close>

text \<open>A machine that removes what it is asked to and whose programs all end well.\<close>

definition willing :: "machine \<Rightarrow> bool" where
  "willing m \<longleftrightarrow> (\<forall>tr p. remove_error m tr p = None)
     \<and> (\<forall>tr program args. \<exists>output. run_program m tr program args = Inr output \<and> ran_code output = Some 0)"

lemma willing_command: "willing m \<Longrightarrow> command m program args fine tr = (Inr (), tr @ [Ran program args])"
  by (auto simp: willing_def command_def Let_def split: sum.splits) (metis sum.inject(2) sum.distinct(1))+

lemma willing_removes:
  "willing m \<Longrightarrow> remove_file m p tr =
     (if file_at m tr p = None then (Inl (no_such_file m), tr) else (Inr (), tr @ [Removed p]))"
  by (simp add: willing_def remove_file_def)

locale registrar =
  fixes m :: machine
    and enter :: "'d \<Rightarrow> given_folder list \<Rightarrow> trace \<Rightarrow> unit outcome \<times> trace"
    and leave :: "string \<Rightarrow> trace \<Rightarrow> string outcome \<times> trace"
    and name_of :: "'d \<Rightarrow> string"
    and entry :: "string \<Rightarrow> path"
    and entry_of :: "'d \<Rightarrow> string"
  assumes entered: "enter service all tr = (Inr (), t) \<Longrightarrow>
      file_at m t (entry (name_of service)) = Some (entry_of service)"
    and left: "willing m \<Longrightarrow> file_at m tr (entry name) \<noteq> None \<Longrightarrow>
      \<exists>t. leave name tr = (Inr (removed_words name), t) \<and> file_at m t (entry name) = None"
    and keeps: "\<not> registration_file p \<Longrightarrow> file_at m (snd (leave name tr)) p = file_at m tr p"
begin

lemma enter_then_leave:
  assumes "enter service all tr = (Inr (), t)" "willing m"
    and "file_at m t' (entry (name_of service)) = file_at m t (entry (name_of service))"
  shows "\<exists>t2. leave (name_of service) t' = (Inr (removed_words (name_of service)), t2)
     \<and> file_at m t2 (entry (name_of service)) = None
     \<and> (\<forall>p. \<not> registration_file p \<longrightarrow> file_at m t2 p = file_at m t' p)"
proof -
  have "file_at m t' (entry (name_of service)) \<noteq> None" using entered [OF assms(1)] assms(3) by simp
  then obtain t2 where "leave (name_of service) t' = (Inr (removed_words (name_of service)), t2)"
      "file_at m t2 (entry (name_of service)) = None"
    using left [OF assms(2)] by blast
  then show ?thesis using keeps [of _ "name_of service" t'] by auto
qed

end

lemma file_at_append: "file_at m (tr @ es) p = replay (file_at m tr) es p"
proof -
  have "file_at m tr = replay (files_first m) tr" by (simp add: fun_eq_iff file_at_def)
  then show ?thesis by (simp add: file_at_def)
qed

lemma file_at_entered [simp]:
  "file_at m (tr @ es @ unit_steps api service) (unit_path (service_name api service))
     = Some (systemd_unit api service)"
  "file_at m (tr @ es @ daemon_steps api service) (plist_path (service_name api service))
     = Some (launchd_plist api service)"
  by (simp_all add: file_at_def unit_steps_def daemon_steps_def)

lemma deregister_keeps:
  assumes "deregister fuel m os ctl clk name node tr = Some (r, t)" "\<not> registration_file p"
  shows "file_at m t p = file_at m tr p"
  by (rule leaves_file, rule deregister_adds [OF assms(1)]) (use assms(2) in \<open>auto simp: leaves_def\<close>)

lemma deregister_unix:
  "deregister fuel m Linux ctl clk name node tr = Some (deregister_linux m name tr)"
  "deregister fuel m MacOS ctl clk name node tr = Some (deregister_macos m name tr)"
  by (simp_all add: deregister_def)

lemma exists_file: "file_at m tr p \<noteq> None \<Longrightarrow> exists_at m tr p"
  by (simp add: exists_at_def)

interpretation systemd: registrar m "\<lambda>service. register m Linux ctl api service node" "deregister_linux m"
  "service_name api" unit_path "systemd_unit api" for m ctl api node
proof unfold_locales
  fix service all tr t name p
  show "register m Linux ctl api service node all tr = (Inr (), t) \<Longrightarrow>
      file_at m t (unit_path (service_name api service)) = Some (systemd_unit api service)"
    by (drule registered_linux) simp
  show "willing m \<Longrightarrow> file_at m tr (unit_path name) \<noteq> None \<Longrightarrow>
      \<exists>t. deregister_linux m name tr = (Inr (removed_words name), t) \<and> file_at m t (unit_path name) = None"
    by (auto simp: deregister_linux_def Let_def exists_file willing_command said_removing_def
        willing_removes file_at_append)
  show "\<not> registration_file p \<Longrightarrow> file_at m (snd (deregister_linux m name tr)) p = file_at m tr p"
    using deregister_keeps [of 0 m Linux _ _ name _ tr] by (simp add: deregister_unix prod_eq_iff)
qed

interpretation launchd: registrar m "\<lambda>service. register m MacOS ctl api service node" "deregister_macos m"
  "service_name api" plist_path "launchd_plist api" for m ctl api node
proof unfold_locales
  fix service all tr t name p
  show "register m MacOS ctl api service node all tr = (Inr (), t) \<Longrightarrow>
      file_at m t (plist_path (service_name api service)) = Some (launchd_plist api service)"
    by (drule registered_macos) simp
  show "willing m \<Longrightarrow> file_at m tr (plist_path name) \<noteq> None \<Longrightarrow>
      \<exists>t. deregister_macos m name tr = (Inr (removed_words name), t) \<and> file_at m t (plist_path name) = None"
    by (auto simp: deregister_macos_def Let_def exists_file willing_command said_removing_def
        willing_removes ignoring_def file_at_append)
  show "\<not> registration_file p \<Longrightarrow> file_at m (snd (deregister_macos m name tr)) p = file_at m tr p"
    using deregister_keeps [of 0 m MacOS _ _ name _ tr] by (simp add: deregister_unix prod_eq_iff)
qed

section \<open>The two modes\<close>

lemma ended_mode_says: "Println (''OK: '' @ said) \<in> set (snd (ended_mode sink action (Inr said, tr)))"
  by (simp add: ended_mode_def record_event_def kept_def Let_def split: option.splits)

text \<open>A definition keeps its node's name, whatever it is then told to run with.\<close>

definition lawful_names :: "'d registration_api \<Rightarrow> bool" where
  "lawful_names api \<longleftrightarrow>
     (\<forall>node executable configuration root.
        service_name api (for_node api node executable configuration root) = node_service_name api node)
     \<and> (\<forall>service variable content. service_name api (with_variable api service variable content)
          = service_name api service)
     \<and> (\<forall>service account. service_name api (running_as api service account) = service_name api service)"

lemma configured_name:
  assumes "lawful_names (iw_registration w)"
    and "configured_service w args node_file tr = Inr (node, service, all)"
  shows "\<exists>document. iw_read w tr (display node_file) = Inr document \<and> node = doc_node document
     \<and> service_name (iw_registration w) service = node_service_name (iw_registration w) node"
  using assms
  by (auto simp: configured_service_def node_service_def Let_def and_then_Inr_iff lawful_names_def
      split: option.splits)

lemma set_up_registers:
  assumes "set_up_service w args at node_file tr = (Inr said, t)"
  shows "\<exists>t1 t3 node service all. configured_service w args node_file t1 = Inr (node, service, all)
     \<and> register (iw_machine w) (iw_os w) (iw_control w) (iw_registration w) service node all t3 = (Inr (), t)"
  using assms by (auto simp: set_up_service_def Let_def then_do_Inr case_prod_unfold) blast

lemma installed_registers:
  assumes "install w args tr = (SUCCESS, tr')" "parent (path_of (arg_configuration args)) = Some at"
  shows "\<exists>t1 t3 t node service all.
      configured_service w args (join_path at (path_of NODE_FILE)) t1 = Inr (node, service, all)
    \<and> register (iw_machine w) (iw_os w) (iw_control w) (iw_registration w) service node all t3 = (Inr (), t)
    \<and> (\<forall>p. file_at (iw_machine w) tr' p = file_at (iw_machine w) t p)"
proof -
  obtain said t2 t where set_up: "set_up_service w args at (join_path at (path_of NODE_FILE)) t2 = (Inr said, t)"
    and tr': "tr' = snd (ended_mode (iw_sink w) ''install'' (Inr said, t))"
    using assms by (rule install_stages)
  have "adds (leaves p) t tr'" for p
    unfolding tr' by (auto simp: ended_mode_def leaves_def intro!: adds_record_event adds_more)
  then have "\<forall>p. file_at (iw_machine w) tr' p = file_at (iw_machine w) t p" using leaves_file by blast
  with set_up_registers [OF set_up] show ?thesis by blast
qed

text \<open>The file a service manager keeps for a service.\<close>

definition entry_file :: "platform \<Rightarrow> string \<Rightarrow> path" where
  "entry_file os name = (if os = Linux then unit_path name else plist_path name)"

text \<open>
  C37: An installation undone leaves no registration and loses nothing else.  On Linux and on macOS,
  where an installation exits 0 the service manager's file for the node's service is there and holds
  the service's unit or daemon; the uninstallation of the same node, on a machine that does as it is
  told, then exits 0, says that the service was removed, and leaves no such file, and every other file
  as the installation left it.
\<close>

theorem install_then_uninstall:
  assumes "iw_os w \<in> {Linux, MacOS}" "willing (iw_machine w)" "lawful_names (iw_registration w)"
    and "install w args tr = (SUCCESS, tr1)" "parent (path_of (arg_configuration args)) = Some at"
    and "\<forall>t document. iw_read w t (display (join_path at (path_of NODE_FILE))) = Inr document
      \<longrightarrow> doc_node document = node"
    and "\<And>t. \<exists>document. iw_read w t (arg_configuration uargs) = Inr document \<and> doc_node document = node"
    and "name = node_service_name (iw_registration w) node"
  shows "file_at (iw_machine w) tr1 (entry_file (iw_os w) name) \<noteq> None
     \<and> (\<exists>tr2. uninstall fuel w uargs tr1 = Some (SUCCESS, tr2)
        \<and> Println (''OK: '' @ removed_words name) \<in> set tr2
        \<and> file_at (iw_machine w) tr2 (entry_file (iw_os w) name) = None
        \<and> (\<forall>p. \<not> registration_file p \<longrightarrow> file_at (iw_machine w) tr2 p = file_at (iw_machine w) tr1 p))"
proof -
  let ?m = "iw_machine w" and ?api = "iw_registration w"
  obtain t1 t3 t node' service all where
    conf: "configured_service w args (join_path at (path_of NODE_FILE)) t1 = Inr (node', service, all)"
    and reg: "register ?m (iw_os w) (iw_control w) ?api service node' all t3 = (Inr (), t)"
    and same: "\<And>p. file_at ?m tr1 p = file_at ?m t p"
    using installed_registers [OF assms(4,5)] by blast
  have name: "service_name ?api service = name"
    using configured_name [OF assms(3) conf] assms(6,8) by auto
  let ?begun = "record_event (iw_sink w) ''uninstall'' Begin [(''service'', name)] tr1"
  have begun: "file_at ?m ?begun p = file_at ?m tr1 p" for p
    by (rule leaves_file) (auto simp: leaves_def intro!: adds_record_event)
  have "\<exists>t2. deregister fuel ?m (iw_os w) (iw_control w) (iw_clock w) name node ?begun
        = Some (Inr (removed_words name), t2)
      \<and> file_at ?m t (entry_file (iw_os w) name) \<noteq> None
      \<and> file_at ?m t2 (entry_file (iw_os w) name) = None
      \<and> (\<forall>p. \<not> registration_file p \<longrightarrow> file_at ?m t2 p = file_at ?m ?begun p)"
  proof (cases "iw_os w = Linux")
    case True
    then have os: "iw_os w = Linux" using assms(1) by simp
    note systemd.enter_then_leave [OF reg [unfolded os] assms(2), of ?begun]
      systemd.entered [OF reg [unfolded os]]
    then show ?thesis
      by (simp add: os begun same name entry_file_def deregister_unix)
  next
    case False
    then have os: "iw_os w = MacOS" using assms(1) by simp
    note launchd.enter_then_leave [OF reg [unfolded os] assms(2), of ?begun]
      launchd.entered [OF reg [unfolded os]]
    then show ?thesis
      by (simp add: os begun same name entry_file_def deregister_unix)
  qed
  then obtain t2 where un: "deregister fuel ?m (iw_os w) (iw_control w) (iw_clock w) name node ?begun
        = Some (Inr (removed_words name), t2)"
    and gone: "file_at ?m t (entry_file (iw_os w) name) \<noteq> None" "file_at ?m t2 (entry_file (iw_os w) name) = None"
      "\<And>p. \<not> registration_file p \<Longrightarrow> file_at ?m t2 p = file_at ?m tr1 p"
    unfolding begun by blast
  obtain document where "iw_read w tr1 (arg_configuration uargs) = Inr document" "doc_node document = node"
    using assms(7) by blast
  then have run: "uninstall fuel w uargs tr1
      = Some (ended_mode (iw_sink w) ''uninstall'' (Inr (removed_words name), t2))"
    using un by (simp add: uninstall_def uninstalled_def Let_def assms(8))
  have "adds (leaves p) t2 (snd (ended_mode (iw_sink w) ''uninstall'' (Inr (removed_words name), t2)))" for p
    by (auto simp: ended_mode_def leaves_def intro!: adds_record_event adds_more)
  from leaves_file [OF this] show ?thesis
    using run gone same ended_mode_says by (auto simp: ended_mode_def)
qed

lemma plain_willing: "willing plain_machine" "lawful_names plain_registration"
  by (simp_all add: willing_def plain_machine_def lawful_names_def plain_registration_def)

lemma plain_reads:
  "\<forall>t document. iw_read plain_install t c = Inr document \<longrightarrow> doc_node document = ''N''"
  "\<exists>document. iw_read plain_install t c = Inr document \<and> doc_node document = ''N''"
  by (auto simp: plain_install_def)

theorem install_then_uninstall_witness:
  "\<exists>tr1 tr2. install plain_install install_args [] = (SUCCESS, tr1)
     \<and> file_at plain_machine tr1 (unit_path ''xmip-N'') \<noteq> None
     \<and> uninstall 0 plain_install install_args tr1 = Some (SUCCESS, tr2)
     \<and> file_at plain_machine tr2 (unit_path ''xmip-N'') = None"
proof -
  obtain tr1 where run: "install plain_install install_args [] = (SUCCESS, tr1)"
    using plain_installs by (metis prod.collapse)
  have world: "iw_machine plain_install = plain_machine" "iw_os plain_install = Linux"
      "iw_registration plain_install = plain_registration"
    by (simp_all add: plain_install_def)
  have place: "parent (path_of (arg_configuration install_args)) = Some (Path True [''x'', ''c''])"
    using plain_places(1,2) by (simp add: install_args_def)
  have name: "''xmip-N'' = node_service_name (iw_registration plain_install) ''N''"
    by (simp add: world plain_registration_def)
  have os: "iw_os plain_install \<in> {Linux, MacOS}" "willing (iw_machine plain_install)"
      "lawful_names (iw_registration plain_install)"
    using plain_willing by (simp_all add: world)
  from install_then_uninstall [where fuel = 0 and uargs = install_args, OF os run place plain_reads name] run show ?thesis
    by (auto simp: world entry_file_def)
qed

end
