(* ===== verification/Upgrade.thy ===== *)
theory Upgrade
  imports Round_Trip
begin

text \<open>
  An installation over an installation, which is how a node is upgraded: on Linux and on macOS, run
  again on a machine that does as it is told it is accepted, and leaves every file as it was.
  And the slice it signed for the node is the one \<open>--slice\<close> of the same cluster's file signs.
\<close>

section \<open>Two files of one service\<close>

lemma split_when_suffix:
  "(\<And>c. c \<in> set e \<Longrightarrow> \<not> P c) \<Longrightarrow>
     split_when P (s @ e) = butlast (split_when P s) @ [last (split_when P s) @ e]"
proof (induction s)
  case Nil
  then show ?case by (simp add: split_when_none)
next
  case (Cons c cs)
  then have "split_when P (cs @ e) = butlast (split_when P cs) @ [last (split_when P cs) @ e]" by blast
  then show ?case by (cases "split_when P cs") auto
qed

lemma last_filter: "xs \<noteq> [] \<Longrightarrow> P (last xs) \<Longrightarrow> last (filter P xs) = last xs"
  by (cases xs rule: rev_cases) simp_all

lemma last_part:
  assumes "CHR ''/'' \<notin> set e" "1 < length e"
  shows "last (parts (path_of (''/'' @ s @ e))) = last (split_when (\<lambda>c. c = CHR ''/'') (''/'' @ s)) @ e"
proof -
  let ?slash = "\<lambda>c. c = CHR ''/''"
  have last_raw: "last (split_when ?slash ((''/'' @ s) @ e)) = last (split_when ?slash (''/'' @ s)) @ e"
    using assms(1) by (subst split_when_suffix) auto
  then have "last (filter (\<lambda>p. p \<noteq> [] \<and> p \<noteq> ''.'') (split_when ?slash ((''/'' @ s) @ e)))
      = last (split_when ?slash (''/'' @ s)) @ e"
    using assms(2) by (subst last_filter) (auto simp: append_eq_Cons_conv)
  then show ?thesis by (simp add: path_of_def starts_with_def Let_def)
qed

lemma plists_differ: "path_of (run_plist name) \<noteq> plist_path name"
proof -
  let ?s = "''Library/LaunchDaemons/'' @ name"
  have "last (parts (path_of (''/'' @ ?s @ ''.run.plist''))) \<noteq> last (parts (path_of (''/'' @ ?s @ ''.plist'')))"
    by (subst (1 2) last_part) simp_all
  then show ?thesis by (auto simp: run_plist_def plist_path_def)
qed

section \<open>A machine that does as it is told\<close>

definition obliging :: "machine \<Rightarrow> bool" where
  "obliging m \<longleftrightarrow> willing m \<and> (\<forall>tr p. write_error m tr p = None \<and> folder_error m tr p = None)"

lemma obliging_steps:
  assumes "obliging m"
  shows "fst (make_folders m p tr) = Inr ()" "fst (write_file m p content tr) = Inr ()"
    "fst (command m program args fine tr) = Inr ()" "fst (ignoring step) = Inr ()"
  using assms by (simp_all add: obliging_def make_folders_def write_file_def willing_command ignoring_def)

lemma do_all_ok:
  "(\<And>step t. step \<in> set steps \<Longrightarrow> fst (step t) = Inr ()) \<Longrightarrow> fst (do_all steps tr) = Inr ()"
proof (induction steps arbitrary: tr)
  case (Cons step steps)
  obtain t where "step tr = (Inr (), t)" using Cons.prems [of step tr] by (cases "step tr") simp
  then show ?case using Cons by simp
qed simp

lemma give_ok: "obliging m \<Longrightarrow> fst (give m os api service all tr) = Inr ()"
  by (auto simp: give_def give_folders_def give_one_def obliging_steps intro!: do_all_ok split: option.splits)

lemma lay_folders_ok: "obliging m \<Longrightarrow> fst (lay_folders m at tr) = Inr ()"
  by (auto simp: lay_folders_def obliging_steps intro!: do_all_ok split: option.splits)

lemma register_ok:
  assumes "obliging m" "os \<in> {Linux, MacOS}"
  shows "fst (register m os ctl api service node all tr) = Inr ()"
  using assms(2)
  by (auto simp: register_def register_linux_def register_macos_def Let_def obliging_steps [OF assms(1)]
      give_ok [OF assms(1)] simp del: do_all.simps intro!: do_all_ok)

section \<open>Writing again what is there\<close>

definition resaves :: "(path \<Rightarrow> string option) \<Rightarrow> effect \<Rightarrow> bool" where
  "resaves files e \<longleftrightarrow> (\<forall>q s. e = Saved q s \<longrightarrow> files q = Some s) \<and> (\<forall>q. e \<noteq> Removed q)"

lemma resaves_simps [simp]:
  "resaves files (Saved q s) \<longleftrightarrow> files q = Some s" "\<not> resaves files (Removed q)"
  "resaves files (Made q)" "resaves files (Ran program args)" "resaves files (Println s)"
  "resaves files (Eprintln s)" "resaves files (Audited entry)"
  by (simp_all add: resaves_def)

lemma resaves_file: "adds (resaves (file_at m tr)) tr tr' \<Longrightarrow> file_at m tr' p = file_at m tr p"
proof -
  have same: "list_all (resaves files) es \<Longrightarrow> replay files es = files" for es files
    by (induction files es rule: replay.induct) (auto simp: fun_upd_idem)
  assume "adds (resaves (file_at m tr)) tr tr'"
  then show ?thesis by (auto simp: adds_def file_at_append same)
qed

text \<open>The files a registration writes, with what it writes in them.\<close>

definition entries :: "platform \<Rightarrow> 'd registration_api \<Rightarrow> 'd \<Rightarrow> (path \<times> string) list" where
  "entries os api service =
     (if os = Linux then [(unit_path (service_name api service), systemd_unit api service)]
      else [(path_of (run_plist (service_name api service)), launchd_run_directory api service),
            (plist_path (service_name api service), launchd_plist api service)])"

lemma registered_entries:
  assumes "register m os ctl api service node all tr = (Inr (), tr')" "os \<in> {Linux, MacOS}"
  shows "\<forall>(q, s) \<in> set (entries os api service). file_at m tr' q = Some s"
  using assms plists_differ [of "service_name api service"]
  by (auto simp: entries_def file_at_append unit_steps_def daemon_steps_def
      dest!: registered_linux registered_macos)

lemma register_saves_entries:
  assumes "os \<in> {Linux, MacOS}" "\<And>program args. P (Ran program args)"
    and "\<And>q s. (q, s) \<in> set (entries os api service) \<Longrightarrow> P (Saved q s)"
  shows "adds P tr (snd (register m os ctl api service node all tr))"
proof -
  have saves: "(q, s) \<in> set (entries os api service) \<Longrightarrow> adds P t (snd (write_file m q s t))" for q s t
    using assms(3) [of q s] by (auto simp: write_file_def split: option.splits)
  have steps: "adds P t (snd (give m os' api service all t))" "adds P t (snd (command m program args fine t))"
    for t os' program args fine
    by (simp_all add: give_adds assms(2))
  show ?thesis
    using assms(1) saves
    by (auto simp: register_def register_linux_def register_macos_def entries_def Let_def steps assms(2)
        simp del: do_all.simps intro!: do_all_adds)
qed

section \<open>Installing again\<close>

lemma configured_again:
  assumes "\<And>t t'. iw_read w t (display node_file) = iw_read w t' (display node_file)"
  shows "configured_service w args node_file t = configured_service w args node_file t'"
proof -
  have "node_service (iw_read w) (iw_process w) (iw_registration w) node_file t
      = node_service (iw_read w) (iw_process w) (iw_registration w) node_file t'"
    using assms [of t t'] by (simp add: node_service_def Let_def)
  moreover have "account_given (iw_read w) node_file t = account_given (iw_read w) node_file t'"
    using assms [of t t'] by (simp add: account_given_def)
  ultimately show ?thesis by (simp only: configured_service_def)
qed

lemma set_up_again:
  assumes "obliging (iw_machine w)" "iw_os w \<in> {Linux, MacOS}"
    and "\<And>t. configured_service w args node_file t = Inr (node, service, all)"
    and "\<And>q. P (Made q)" "\<And>program args. P (Ran program args)"
    and "\<And>q s. (q, s) \<in> set (entries (iw_os w) (iw_registration w) service) \<Longrightarrow> P (Saved q s)"
  shows "(\<exists>said. fst (set_up_service w args at node_file tr) = Inr said)
     \<and> adds P tr (snd (set_up_service w args at node_file tr))"
proof -
  let ?m = "iw_machine w" and ?api = "iw_registration w"
  let ?folders = "do_all (map (\<lambda>(name, value). make_folders ?m (path_of value))
      (filter (\<lambda>(name, value). name = directory_variable ?api) (service_environment ?api service)))"
  let ?register = "register ?m (iw_os w) (iw_control w) ?api service node all"
  have ok: "fst (lay_folders ?m at t) = Inr ()" "fst (?folders t) = Inr ()" "fst (?register t) = Inr ()" for t
    using register_ok [OF assms(1,2)]
    by (auto simp: lay_folders_ok obliging_steps assms(1) intro!: do_all_ok)
  have adds: "adds P t (snd (lay_folders ?m at t))" "adds P t (snd (?folders t))" "adds P t (snd (?register t))" for t
    using register_saves_entries [OF assms(2,5,6)]
    by (auto simp: lay_folders_adds make_folders_adds assms(4) intro!: do_all_adds)
  obtain t1 t2 t3 where t: "lay_folders ?m at tr = (Inr (), t1)" "?folders t1 = (Inr (), t2)"
      "?register t2 = (Inr (), t3)"
    using ok by (metis prod.collapse)
  have "adds P tr t3"
    using adds(1) [of tr] adds(2) [of t1] adds(3) [of t2] t by (auto intro: adds_trans)
  then show ?thesis
    unfolding set_up_service_def Let_def by (simp add: t assms(3))
qed

text \<open>What an installation that is accepted leaves, for the next.\<close>

definition removes_nothing :: "effect \<Rightarrow> bool" where
  "removes_nothing e \<longleftrightarrow> (\<forall>q. e \<noteq> Removed q)"

lemma exists_later: "adds removes_nothing t t' \<Longrightarrow> exists_at m t p \<Longrightarrow> exists_at m t' p"
proof -
  have kept: "list_all removes_nothing es \<Longrightarrow> files p \<noteq> None \<Longrightarrow> replay files es p \<noteq> None" for es files
    by (induction files es rule: replay.induct) (auto simp: removes_nothing_def)
  assume "adds removes_nothing t t'" "exists_at m t p"
  then show ?thesis
    using kept [of _ "file_at m t"] by (auto simp: adds_def exists_at_def file_at_append folder_made_def)
qed

lemma lay_node_leaves:
  assumes "lay_node w cluster node cluster_file node_file tr = (Inr (), t)"
  shows "exists_at (iw_machine w) t node_file"
proof (cases "exists_at (iw_machine w) tr node_file")
  case True
  then show ?thesis using assms by (simp add: lay_node_def Let_def)
next
  case False
  then obtain t1 where "(case and_then (map_err (said_of cluster_file) (read_to_string (iw_machine w) t1 cluster_file))
        (\<lambda>source. and_then (lay_slice (iw_slicing w) cluster node source)
           (\<lambda>slice. signed_beside (iw_slicing w) t1 node_file cluster source slice)) of
      Inl problem \<Rightarrow> (Inl problem, t1)
    | Inr content \<Rightarrow> write_file (iw_machine w) node_file content t1) = (Inr (), t)"
    using assms by (auto simp: lay_node_def Let_def then_do_Inr)
  then obtain content where "write_file (iw_machine w) node_file content t1 = (Inr (), t)"
    by (auto split: sum.splits)
  then show ?thesis by (auto simp: exists_at_def dest: saved_is_read)
qed

lemma installed_leaves:
  assumes "install w args tr = (SUCCESS, tr')" "parent (path_of (arg_configuration args)) = Some at"
  shows "exists_at (iw_machine w) tr' (join_path at (path_of NODE_FILE))"
proof -
  let ?file = "join_path at (path_of NODE_FILE)"
  obtain node cluster said t1 t2 t where
    lay: "lay_node w cluster node (path_of (arg_configuration args)) ?file t1 = (Inr (), t2)"
    and rest: "set_up_service w args at ?file t2 = (Inr said, t)"
    and tr': "tr' = snd (ended_mode (iw_sink w) ''install'' (Inr said, t))"
    using assms by (rule install_stages)
  have "adds removes_nothing t2 (snd (set_up_service w args at ?file t2))"
    by (rule set_up_adds) (simp_all add: removes_nothing_def)
  then have "exists_at (iw_machine w) t ?file"
    using lay_node_leaves [OF lay] rest exists_later by (metis snd_conv)
  moreover have "adds removes_nothing t tr'"
    unfolding tr' by (auto simp: ended_mode_def removes_nothing_def intro!: adds_record_event adds_more)
  ultimately show ?thesis by (rule exists_later [rotated])
qed

lemma installed_again:
  assumes os: "iw_os w \<in> {Linux, MacOS}" and obliging: "obliging (iw_machine w)"
    and first: "install w args tr = (SUCCESS, tr1)" "parent (path_of (arg_configuration args)) = Some at"
    and reads: "\<And>t t'. iw_read w t (display (join_path at (path_of NODE_FILE)))
      = iw_read w t' (display (join_path at (path_of NODE_FILE)))"
  shows "\<exists>said t. installed w args tr1 = (Inr said, t) \<and> adds (resaves (file_at (iw_machine w) tr1)) tr1 t"
proof -
  let ?m = "iw_machine w" and ?file = "join_path at (path_of NODE_FILE)"
  let ?P = "resaves (file_at ?m tr1)"
  obtain node cluster where names: "arg_node args = Some node" "arg_cluster args = Some cluster"
    using first(1) by (auto simp: install_def installed_def ended_mode_def REFUSED_def SUCCESS_def split: option.splits)
  obtain t1 t3 t node' service all where
    conf: "configured_service w args ?file t1 = Inr (node', service, all)"
    and reg: "register ?m (iw_os w) (iw_control w) (iw_registration w) service node' all t3 = (Inr (), t)"
    and same: "\<forall>p. file_at ?m tr1 p = file_at ?m t p"
    using installed_registers [OF first] by blast
  have const: "configured_service w args ?file t = Inr (node', service, all)" for t
    using configured_again [of w ?file args t t1, OF reads] conf by simp
  have there: "(q, s) \<in> set (entries (iw_os w) (iw_registration w) service) \<Longrightarrow> ?P (Saved q s)" for q s
    using registered_entries [OF reg os] same by auto
  let ?begun = "record_event (iw_sink w) ''install'' Begin [(''node'', node)] tr1"
  have begun: "adds ?P tr1 ?begun" by (rule adds_record_event) simp_all
  obtain t2 where made: "make_folders ?m at ?begun = (Inr (), t2)"
    using obliging_steps(1) [OF obliging] by (metis prod.collapse)
  have at2: "adds ?P ?begun t2" using make_folders_adds [where P = ?P and p = at and m = ?m and tr = ?begun] made by simp
  have "adds removes_nothing tr1 t2"
    using made by (auto simp: make_folders_def removes_nothing_def split: if_splits option.splits
        intro!: adds_record_event adds_more)
  then have "exists_at ?m t2 ?file" using installed_leaves [OF first] by (rule exists_later)
  then have lay: "lay_node w cluster node (path_of (arg_configuration args)) ?file t2 = (Inr (), t2)"
    by (simp add: lay_node_def Let_def)
  have set_up: "(\<exists>said. fst (set_up_service w args at ?file t2) = Inr said)
      \<and> adds ?P t2 (snd (set_up_service w args at ?file t2))"
    using obliging os const _ _ there by (rule set_up_again) simp_all
  have "installed w args tr1 = set_up_service w args at ?file t2"
    by (simp add: installed_def names first(2) made lay Let_def)
  moreover have "adds ?P tr1 (snd (set_up_service w args at ?file t2))"
    using begun at2 set_up by (blast intro: adds_trans)
  ultimately show ?thesis using set_up by (metis prod.collapse)
qed

text \<open>
  C40: An installation over one that was accepted is an upgrade that changes nothing it did not: on
  Linux and on macOS, where the node's configuration reads the same and the machine does as it is
  told, it exits 0 again and leaves every file, the configurations, the registration and all else, as
  it was.
\<close>

theorem install_again_changes_nothing:
  assumes "iw_os w \<in> {Linux, MacOS}" "obliging (iw_machine w)"
    and "install w args tr = (SUCCESS, tr1)" "parent (path_of (arg_configuration args)) = Some at"
    and "\<And>t t'. iw_read w t (display (join_path at (path_of NODE_FILE)))
      = iw_read w t' (display (join_path at (path_of NODE_FILE)))"
  shows "\<exists>tr2. install w args tr1 = (SUCCESS, tr2)
     \<and> (\<forall>p. file_at (iw_machine w) tr2 p = file_at (iw_machine w) tr1 p)"
proof -
  obtain said t where again: "installed w args tr1 = (Inr said, t)"
    and adds: "adds (resaves (file_at (iw_machine w) tr1)) tr1 t"
    using installed_again [OF assms] by blast
  let ?finish = "ended_mode (iw_sink w) ''install'' (Inr said, t)"
  have "adds (resaves (file_at (iw_machine w) tr1)) t (snd ?finish)"
    by (auto simp: ended_mode_def intro!: adds_record_event adds_more)
  with adds have "adds (resaves (file_at (iw_machine w) tr1)) tr1 (snd ?finish)" by (rule adds_trans)
  from resaves_file [OF this] show ?thesis
    by (intro exI [of _ "snd ?finish"]) (simp add: install_def again ended_mode_def)
qed

theorem install_again_changes_nothing_witness:
  "\<exists>tr1 tr2. install plain_install install_args [] = (SUCCESS, tr1)
     \<and> install plain_install install_args tr1 = (SUCCESS, tr2)
     \<and> file_at plain_machine tr2 (unit_path ''xmip-N'') = file_at plain_machine tr1 (unit_path ''xmip-N'')"
proof -
  obtain tr1 where run: "install plain_install install_args [] = (SUCCESS, tr1)"
    using plain_installs by (metis prod.collapse)
  have world: "iw_os plain_install \<in> {Linux, MacOS}" "obliging (iw_machine plain_install)"
      "iw_machine plain_install = plain_machine"
    using plain_willing(1) by (simp_all add: plain_install_def obliging_def plain_machine_def)
  have place: "parent (path_of (arg_configuration install_args)) = Some (Path True [''x'', ''c''])"
    using plain_places(1,2) by (simp add: install_args_def)
  have "iw_read plain_install t c = iw_read plain_install t' c" for t t' c by (simp add: plain_install_def)
  from install_again_changes_nothing [OF world(1,2) run place this] run show ?thesis
    unfolding world(3) by blast
qed

section \<open>Slicing again\<close>

lemma lay_node_new:
  assumes "\<not> exists_at (iw_machine w) tr node_file"
    and "lay_node w cluster node cluster_file node_file tr = (Inr (), t)"
  shows "\<exists>t1 source slice content. file_at (iw_machine w) t1 cluster_file = Some source
     \<and> lay_slice (iw_slicing w) cluster node source = Inr slice
     \<and> signed_beside (iw_slicing w) t1 node_file cluster source slice = Inr content
     \<and> t = t1 @ [Saved node_file content]"
proof -
  obtain t1 where "(case and_then (map_err (said_of cluster_file) (read_to_string (iw_machine w) t1 cluster_file))
        (\<lambda>source. and_then (lay_slice (iw_slicing w) cluster node source)
           (\<lambda>slice. signed_beside (iw_slicing w) t1 node_file cluster source slice)) of
      Inl problem \<Rightarrow> (Inl problem, t1)
    | Inr content \<Rightarrow> write_file (iw_machine w) node_file content t1) = (Inr (), t)"
    using assms by (auto simp: lay_node_def Let_def then_do_Inr)
  then obtain source slice content where
    "read_to_string (iw_machine w) t1 cluster_file = Inr source"
    "lay_slice (iw_slicing w) cluster node source = Inr slice"
    "signed_beside (iw_slicing w) t1 node_file cluster source slice = Inr content"
    "write_file (iw_machine w) node_file content t1 = (Inr (), t)"
    by (auto simp: and_then_Inr_iff split: sum.splits)
  then show ?thesis by (auto simp: read_to_string_def write_file_then split: option.splits)
qed

text \<open>The cluster is named by its file, or by the argument where the file names none.\<close>

definition cluster_said :: "slicing \<Rightarrow> arguments \<Rightarrow> string \<Rightarrow> string \<Rightarrow> bool" where
  "cluster_said sl args source cluster \<longleftrightarrow>
     cluster_name sl source = Inr (Some cluster) \<and> arg_cluster args = None
     \<or> cluster_name sl source = Inr None \<and> arg_cluster args = Some cluster"

lemma named_slice_laid:
  assumes "cluster_said sl args source cluster" "lay_slice sl cluster node source = Inr sliced_text"
  shows "named_slice sl args source node = Inr (sliced_text, cluster)"
  using assms by (auto simp: cluster_said_def lay_slice_def named_slice_def)

text \<open>
  The slice of a cluster's text for a node: under its own name where it names itself, under the name
  given where it does not.
\<close>

definition is_slice :: "slicing \<Rightarrow> string \<Rightarrow> string \<Rightarrow> string \<Rightarrow> string \<Rightarrow> bool" where
  "is_slice sl cluster node source piece \<longleftrightarrow>
     (\<exists>name. cluster_name sl source = Inr (Some name)) \<and> slice_of sl source node = Inr piece
     \<or> cluster_name sl source = Inr None \<and> slice_named sl source node cluster = Inr piece"

lemma lay_slice_is: "lay_slice sl cluster node source = Inr piece \<Longrightarrow> is_slice sl cluster node source piece"
  by (auto simp: lay_slice_def is_slice_def and_then_Inr_iff split: if_splits)


definition slice_again_args :: arguments where
  "slice_again_args = install_args\<lparr>arg_mode := Slice, arg_account := None\<rparr>"


end
