(* ===== verification/Program.thy ===== *)
theory Program
  imports Control_Manager Installation Listening
begin

text \<open>
  \<open>main.rs\<close>: what one process of \<open>xmip-service\<close> does, from its arguments to its exit code: the
  arguments read or refused with the usage, and the mode they name run.  Every mode of the program
  comes together here, and the properties are those of the process.
\<close>

section \<open>Usage\<close>

definition USAGE :: string where
  "USAGE = join_with [newline]
     [''usage: xmip-service --configuration <path> [--console] [--purpose test|runtime]'',
      ''       xmip-service --configuration <path> --definition'',
      ''       xmip-service --configuration <cluster cluster.xmip> --node <name> ''
        @ ''[--cluster <name>] [--bind <host[:port]> --nodes <name,...>] [--authority ''
        @ ''<folder>] --slice'',
      ''       xmip-service --configuration <cluster cluster.xmip> --node <name> ''
        @ ''--cluster <name> [--account <account>] --install'',
      ''       xmip-service --configuration <path> --listening'',
      ''       xmip-service --configuration <path> --uninstall'',
      ''example: xmip-service --configuration /opt/xmip/config/node.xmip --console'',
      ''example: xmip-service --configuration /opt/xmip/config/cluster.xmip --node R1 ''
        @ ''--cluster C1 --slice'',
      ''example: xmip-service --configuration /opt/xmip/config/cluster.xmip --node R1 ''
        @ ''--cluster C1 --bind 10.77.0.1 --nodes R1,S1,P1,L1,D1 --slice'',
      ''example: xmip-service --configuration /opt/xmip/config/cluster.xmip --node R1 ''
        @ ''--cluster C1 --account xmip --install'',
      ''example: xmip-service --configuration /opt/xmip/config/node.xmip --listening'',
      ''--slice prints the node's configuration, sliced from its cluster's ''
        @ ''cluster.xmip; --cluster names the cluster where the file names none; --bind ''
        @ ''places each Receive Location and Send Port the file designs on the ''
        @ ''environment's --nodes, over SFTP on the Parties' far end at <host>, port 7422 ''
        @ ''where it names none; what --slice prints is signed by the cluster's authority ''
        @ ''kept in --authority, beside cluster.xmip where it names none, made there where ''
        @ ''none is kept.'',
      ''--install, where the node has no configuration yet, writes a starter ''
        @ ''cluster.xmip where there is none and slices and signs the node's configuration ''
        @ ''beside it; it makes the node's folders, and registers and starts its service, ''
        @ ''as --account where it is given; --uninstall stops and removes the service of ''
        @ ''the node configured at <path> and deletes nothing. Both need elevation.'',
      ''--listening prints each port the node's configuration listens on, ''
        @ ''<port>/<protocol> and what listens.'',
      ''--console runs in a terminal and stops on Ctrl+C, and with --purpose test also ''
        @ ''at the end of its input, as the test that started it ends it; without it the ''
        @ ''operating system's service manager runs it and stops it.'']"

section \<open>The program's name\<close>

definition file_stem :: "path \<Rightarrow> string option" where
  "file_stem p =
     map_option (\<lambda>name.
         case rsplit_once CHR ''.'' name of
           None \<Rightarrow> name
         | Some (before, after) \<Rightarrow> if before = [] then name else before)
       (file_name p)"

definition program_name :: "path outcome \<Rightarrow> string" where
  "program_name executable =
     (case executable of
        Inl _ \<Rightarrow> PROGRAM
      | Inr at \<Rightarrow> (case file_stem at of None \<Rightarrow> PROGRAM | Some stem \<Rightarrow> stem))"

section \<open>The process\<close>

text \<open>All the process is given of the world: what each mode is.\<close>

record ('r, 'policy, 'p, 'order, 'o, 'c, 'd, 'role) process_world =
  pw_service :: "('r, 'policy, 'p, 'order, 'o, 'c) service_world"
  pw_install :: "('o, 'd) install_world"
  pw_listening :: "('o, 'role) listening_api"
  pw_purposes :: declared_purpose
  pw_notifier :: notifier
  pw_set_handler :: "trace \<Rightarrow> string option"
  pw_happens :: "trace \<Rightarrow> nat \<Rightarrow> console_asking happening list"
  pw_manager :: manager_api
  pw_controls :: "trace \<Rightarrow> nat \<Rightarrow> service_control happening list"

definition run_mode ::
  "('r, 'policy, 'p, 'order, 'o, 'c, 'd, 'role) process_world \<Rightarrow> string \<Rightarrow> arguments \<Rightarrow> nat \<Rightarrow> trace
     \<Rightarrow> (exit_code \<times> trace) option" where
  "run_mode w program args fuel tr =
     (let i = pw_install w; sink = the_sink (pw_service w);
          console = console_run (pw_service w) (pw_happens w) (iw_os i) (pw_notifier w) (pw_set_handler w)
            program args
      in case arg_mode args of
           Definition \<Rightarrow>
             Some (definition_print (iw_read i) (iw_process i) (iw_registration i) sink
               (arg_configuration args) tr)
         | Slice \<Rightarrow> Some (slice_print (iw_slicing i) (iw_machine i) sink args tr)
         | Install \<Rightarrow> Some (install i args tr)
         | Listening \<Rightarrow>
             Some (listening_print (iw_read i) (pw_listening w) (linked_transports (the_linked (pw_service w)))
               sink (arg_configuration args) tr)
         | Uninstall \<Rightarrow> uninstall fuel i args tr
         | Console \<Rightarrow> console fuel tr
         | Service \<Rightarrow>
             if iw_os i = Windows
             then map_option (\<lambda>(code, cells, tr'). (code, tr'))
               (manager_run (pw_service w) (pw_controls w) (pw_manager w) program args fuel fresh_cells tr)
             else console fuel tr)"

definition main ::
  "('r, 'policy, 'p, 'order, 'o, 'c, 'd, 'role) process_world \<Rightarrow> string list \<Rightarrow> nat \<Rightarrow> trace
     \<Rightarrow> (exit_code \<times> trace) option" where
  "main w argv fuel tr =
     (let program = program_name (current_exe (iw_process (pw_install w))) in
      case parse (pw_purposes w) argv of
        Inl problem \<Rightarrow>
          Some (REFUSED,
            fail (the_sink (pw_service w)) ''start'' (program @ '': '' @ problem) tr @ [Eprintln USAGE])
      | Inr args \<Rightarrow> run_mode w program args fuel tr)"

section \<open>Facts\<close>

text \<open>What a run that is refused is audited as: one failure of its mode, or those that refuse a start.\<close>

definition refusal_of :: "mode \<Rightarrow> string list list" where
  "refusal_of mode =
     (case mode of
        Definition \<Rightarrow> [[''definition'']] | Slice \<Rightarrow> [[''slice'']] | Install \<Rightarrow> [[''install'']]
      | Listening \<Rightarrow> [[''listening'']] | Uninstall \<Rightarrow> [[''uninstall'']]
      | Console \<Rightarrow> refusals | Service \<Rightarrow> refusals)"

lemma uninstall_codes:
  assumes "uninstall fuel w args tr = Some (code, tr')"
  shows "code = SUCCESS \<or> code = REFUSED \<and> failures tr' = failures tr @ [''uninstall'']"
proof -
  obtain r t where un: "uninstalled fuel w args tr = Some (r, t)"
    and out: "(code, tr') = ended_mode (iw_sink w) ''uninstall'' (r, t)"
    using assms by (auto simp: uninstall_def)
  have "failures t = failures tr" using un by (rule uninstalled_failures)
  with out show ?thesis by (auto simp: ended_mode_def split: sum.splits)
qed

lemma run_mode_codes:
  assumes "run_mode w program args fuel tr = Some (code, tr')"
  shows "code = SUCCESS
    \<or> code = REFUSED \<and> (\<exists>why \<in> set (refusal_of (arg_mode args)). failures tr' = failures tr @ why)"
proof -
  have one: "fst r \<in> {SUCCESS, REFUSED} \<Longrightarrow>
      (fst r = REFUSED \<longleftrightarrow> failures (snd r) = failures tr @ [action]) \<Longrightarrow> r = (code, tr') \<Longrightarrow>
      code = SUCCESS \<or> code = REFUSED \<and> failures tr' = failures tr @ [action]" for r action
    by auto
  have console: "console_run (pw_service w) happens os n h program args fuel tr = Some (code, tr') \<Longrightarrow>
      code = SUCCESS \<or> code = REFUSED \<and> (\<exists>why \<in> set refusals. failures tr' = failures tr @ why)"
    for happens os n h using console_codes by blast
  show ?thesis
  proof (cases "arg_mode args")
    case Definition
    then show ?thesis
      using assms by (auto simp: run_mode_def refusal_of_def Let_def
          dest: one [OF definition_mode.two_codes definition_mode.refused_iff_audited])
  next
    case Slice
    then show ?thesis
      using assms by (auto simp: run_mode_def refusal_of_def Let_def
          dest: one [OF slice_mode.two_codes slice_mode.refused_iff_audited])
  next
    case Install
    then show ?thesis
      using assms by (auto simp: run_mode_def refusal_of_def Let_def
          dest: one [OF install_mode.two_codes install_mode.refused_iff_audited])
  next
    case Listening
    then show ?thesis
      using assms by (auto simp: run_mode_def refusal_of_def Let_def
          dest: one [OF listening_mode.two_codes listening_mode.refused_iff_audited])
  next
    case Uninstall
    then show ?thesis
      using assms uninstall_codes by (fastforce simp: run_mode_def refusal_of_def Let_def)
  next
    case Console
    then show ?thesis using assms console by (auto simp: run_mode_def refusal_of_def Let_def)
  next
    case Service
    then show ?thesis
      using assms console managed_codes
      by (fastforce simp: run_mode_def refusal_of_def Let_def split: if_splits)
  qed
qed

section \<open>Properties of the process\<close>

text \<open>
  C1: Every run of the program ends with one of two exit codes: 0, or \<open>REFUSED\<close>, which no service
  manager restarts; and nothing is refused only on a screen: a refused run adds to the audit the
  failure of \<open>start\<close> where its arguments do not read, and otherwise the failures of its mode.
\<close>

theorem process_refusals_are_audited:
  assumes "main w argv fuel tr = Some (code, tr')"
  shows "code = SUCCESS
    \<or> code = REFUSED \<and> (\<exists>why. failures tr' = failures tr @ why
         \<and> (case parse (pw_purposes w) argv of
              Inl _ \<Rightarrow> why = [''start''] \<and> Eprintln USAGE \<in> set tr'
            | Inr args \<Rightarrow> why \<in> set (refusal_of (arg_mode args))))"
proof (cases "parse (pw_purposes w) argv")
  case (Inl problem)
  then show ?thesis using assms by (auto simp: main_def Let_def)
next
  case (Inr args)
  then have "run_mode w (program_name (current_exe (iw_process (pw_install w)))) args fuel tr
      = Some (code, tr')" using assms by (simp add: main_def Let_def)
  from run_mode_codes [OF this] Inr show ?thesis by auto
qed

lemma main_settles: "settles (\<lambda>fuel. main w argv fuel tr)"
proof -
  have "settles (\<lambda>fuel. run_mode w program args fuel tr)" for program args
    by (cases "arg_mode args"; cases "iw_os (pw_install w) = Windows")
       (simp_all add: run_mode_def Let_def settles_const settles_map console_settles manager_run_settles
         uninstall_settles)
  then show ?thesis
    by (cases "parse (pw_purposes w) argv") (simp_all add: main_def Let_def settles_const)
qed

lemma main_ends:
  assumes "lawful_clock (the_clock (pw_service w))" "lawful_clock (iw_clock (pw_install w))"
    and "\<And>args t within. n \<le> length (waits t) \<Longrightarrow>
      tells_stop (channel (console_asks args) (pw_happens w) t within)"
    and "\<And>t within. n \<le> length (waits t) \<Longrightarrow>
      tells_stop (channel (\<lambda>control. fst (answer control)) (pw_controls w) t within)"
  shows "\<exists>r. main w argv (DRAIN_LOOKS + n) tr = Some r"
proof (cases "parse (pw_purposes w) argv")
  case (Inl problem)
  then show ?thesis by (simp add: main_def Let_def)
next
  case (Inr args)
  have "n < DRAIN_LOOKS + n" "DRAIN_LOOKS \<le> DRAIN_LOOKS + n" by (simp_all add: DRAIN_LOOKS_def)
  note ends = console_ends [OF assms(1,3) this(1)] managed_ends [OF assms(1,4) this(1)]
    uninstalled_ends [OF assms(2) this(2)]
  have "\<exists>r. run_mode w program args (DRAIN_LOOKS + n) tr = Some r" for program
  proof (cases "arg_mode args")
    case Uninstall
    then show ?thesis using ends(3) [of args tr] by (auto simp: run_mode_def Let_def uninstall_def)
  next
    case Service
    obtain code cells t where "manager_run (pw_service w) (pw_controls w) (pw_manager w) program args (DRAIN_LOOKS + n)
        fresh_cells tr = Some (code, cells, t)" using ends(2) by (metis surj_pair)
    then show ?thesis using Service ends(1) by (auto simp: run_mode_def Let_def)
  qed (use ends(1) in \<open>auto simp: run_mode_def Let_def\<close>)
  with Inr show ?thesis by (simp add: main_def Let_def)
qed

text \<open>
  C8: Every run of the program ends: under lawful clocks, where something that asks for a stop happens in every wait once
  the service has waited \<open>n\<close> times, \<open>DRAIN_LOOKS + n\<close> turns are enough for whatever the arguments are, and with any
  more it ends the same.
\<close>

theorem process_ends:
  assumes "lawful_clock (the_clock (pw_service w))" "lawful_clock (iw_clock (pw_install w))"
    and "\<And>args t within. n \<le> length (waits t) \<Longrightarrow>
      tells_stop (channel (console_asks args) (pw_happens w) t within)"
    and "\<And>t within. n \<le> length (waits t) \<Longrightarrow>
      tells_stop (channel (\<lambda>control. fst (answer control)) (pw_controls w) t within)"
  shows "\<exists>code tr'. \<forall>fuel \<ge> DRAIN_LOOKS + n. main w argv fuel tr = Some (code, tr')"
proof -
  obtain code tr' where "main w argv (DRAIN_LOOKS + n) tr = Some (code, tr')"
    using main_ends [OF assms] by (metis surj_pair)
  then show ?thesis using settlesD [OF main_settles] by blast
qed

section \<open>The process at work\<close>

definition plain_process ::
  "(unit, unit, string, string, unit, unit, string \<times> string, string) process_world" where
  "plain_process =
     \<lparr>pw_service = plain_world, pw_install = plain_install,
      pw_listening = \<lparr>declared_roles = \<lambda>_. Inr [], storage_role = ''storage'',
        chosen_by = \<lambda>_ _. False, transport_waits = \<lambda>_ _. True\<rparr>,
      pw_purposes = plain_purposes,
      pw_notifier = no_notifier, pw_set_handler = \<lambda>_. None, pw_happens = plain_happens,
      pw_manager = willing_manager, pw_controls = plain_controls\<rparr>"

theorem process_refusals_are_audited_witness:
  "\<exists>tr'. main plain_process [''--configuration'', ''node.xmip'', ''--account'', ''xmip''] 1 [] = Some (REFUSED, tr')
     \<and> failures tr' = [''start''] \<and> Eprintln USAGE \<in> set tr'"
proof -
  let ?argv = "[''--configuration'', ''node.xmip'', ''--account'', ''xmip'']"
  have refused: "parse (pw_purposes plain_process) ?argv
      = Inl ''--account is the account --install registers the service as''"
    by (simp add: parse_def read_flag_def take_value_def starts_with_def nothing_read_def mode_of_def
        names_def)
  then obtain tr' where run: "main plain_process ?argv 1 [] = Some (REFUSED, tr')"
    by (simp add: main_def Let_def)
  from process_refusals_are_audited [OF run] refused run show ?thesis by auto
qed

theorem process_ends_witness:
  "\<exists>code tr'. main plain_process [''--configuration'', ''ok'', ''--console''] (DRAIN_LOOKS + 1) [] = Some (code, tr')"
proof -
  have clocks: "lawful_clock (the_clock (pw_service plain_process))"
    "lawful_clock (iw_clock (pw_install plain_process))"
    by (simp_all add: plain_process_def plain_clock plain_install_def logical_clock_lawful)
  have told: "1 \<le> length (waits t) \<Longrightarrow>
      tells_stop (channel (console_asks args) (pw_happens plain_process) t within)"
    "1 \<le> length (waits t) \<Longrightarrow>
      tells_stop (channel (\<lambda>control. fst (answer control)) (pw_controls plain_process) t within)" for args t within
    by (simp_all add: plain_process_def plain_happens_tells plain_controls_tell)
  from process_ends [OF clocks told] show ?thesis by blast
qed

end
