(* ===== verification/Audit_Trail.thy ===== *)
theory Audit_Trail
  imports Program
begin

text \<open>
  What the audit is told over a whole installation or uninstallation, from the command line on: the
  beginning before anything is done, and one end, finished or failed.  The lemmas show that no step in
  between says anything to the audit; the property composes the arguments, the dispatch and the mode.
\<close>

section \<open>The marks of an action\<close>

text \<open>Each call of the audit by its action: a failure, or the phase of a record.\<close>

definition audit_mark :: "effect \<Rightarrow> (string \<times> phase option) option" where
  "audit_mark e =
     (case e of
        Audited (Failure action _) \<Rightarrow> Some (action, None)
      | Audited (Event action phase _) \<Rightarrow> Some (action, Some phase)
      | _ \<Rightarrow> None)"

definition audit_marks :: "trace \<Rightarrow> (string \<times> phase option) list" where
  "audit_marks tr = List.map_filter audit_mark tr"

abbreviation unaudited :: "effect \<Rightarrow> bool" where
  "unaudited e \<equiv> audit_mark e = None"

lemma audit_mark_simps [simp]:
  "audit_mark (Audited (Failure action problem)) = Some (action, None)"
  "audit_mark (Audited (Event action phase ps)) = Some (action, Some phase)"
  "unaudited (Println s)" "unaudited (Eprintln s)" "unaudited (Saved p s)" "unaudited (Removed p)"
  "unaudited (Made p)" "unaudited (Ran program args)" "unaudited (Called s)" "unaudited Looked"
  "unaudited (Slept d)"
  by (simp_all add: audit_mark_def)

lemma audit_marks_append [simp]: "audit_marks (xs @ ys) = audit_marks xs @ audit_marks ys"
  by (simp add: audit_marks_def List.map_filter_def)

lemma audit_marks_simps [simp]:
  "audit_marks [] = []"
  "audit_marks (e # es) = (case audit_mark e of None \<Rightarrow> audit_marks es | Some m \<Rightarrow> m # audit_marks es)"
  by (auto simp: audit_marks_def List.map_filter_def split: option.splits)

lemma audit_marks_kept [simp]: "audit_marks (kept out tr) = audit_marks tr"
  by (simp add: kept_def split: option.splits)

lemma audit_marks_fail [simp]: "audit_marks (fail sink action problem tr) = audit_marks tr @ [(action, None)]"
  by (simp add: fail_def Let_def)

lemma audit_marks_record [simp]:
  "audit_marks (record_event sink action phase ps tr) = audit_marks tr @ [(action, Some phase)]"
  by (simp add: record_event_def Let_def)

lemma unaudited_marks: "adds unaudited tr tr' \<Longrightarrow> audit_marks tr' = audit_marks tr"
proof -
  have none: "list_all unaudited es \<Longrightarrow> audit_marks es = []" for es
    by (induction es) simp_all
  assume "adds unaudited tr tr'"
  then show ?thesis by (auto simp: adds_def none)
qed

section \<open>Between the beginning and the end\<close>

lemma installed_after_begin:
  assumes "arg_node args = Some node" "arg_cluster args = Some cluster"
  shows "adds unaudited (record_event (iw_sink w) ''install'' Begin [(''node'', node)] tr)
     (snd (installed w args tr))"
proof -
  let ?begun = "record_event (iw_sink w) ''install'' Begin [(''node'', node)] tr"
  have folders: "adds unaudited ?begun (snd (make_folders m q ?begun))" for m q
    by (rule make_folders_adds) simp
  have lay: "adds unaudited t (snd (lay_node w cluster node c n t))" for c n t
    by (rule lay_node_adds) simp
  have rest: "adds unaudited t (snd (set_up_service w args at n t))" for at n t
    by (rule set_up_adds) simp_all
  show ?thesis
    by (simp add: installed_def assms Let_def)
       (rule then_do_adds [OF folders], rule then_do_adds [OF lay], rule rest)
qed

lemma uninstalled_after_begin:
  assumes "uninstalled fuel w args tr = Some (r, t)" "iw_read w tr (arg_configuration args) = Inr document"
  shows "adds unaudited
     (record_event (iw_sink w) ''uninstall'' Begin
        [(''service'', node_service_name (iw_registration w) (doc_node document))] tr) t"
proof -
  have "deregister fuel (iw_machine w) (iw_os w) (iw_control w) (iw_clock w)
      (node_service_name (iw_registration w) (doc_node document)) (doc_node document)
      (record_event (iw_sink w) ''uninstall'' Begin
        [(''service'', node_service_name (iw_registration w) (doc_node document))] tr) = Some (r, t)"
    using assms by (simp add: uninstalled_def Let_def)
  then show ?thesis by (rule deregister_adds) simp_all
qed

lemma ended_mode_marks:
  "ended_mode sink action (r, t) = (code, tr') \<Longrightarrow>
     prefix t tr' \<and> audit_marks tr' =
       audit_marks t @ [(action, if code = SUCCESS then Some Finished else None)]"
  by (auto simp: ended_mode_def split: sum.splits)

lemma install_marks:
  assumes "install w args tr = (code, tr')" "arg_node args = Some node" "arg_cluster args = Some cluster"
  shows "prefix (record_event (iw_sink w) ''install'' Begin [(''node'', node)] tr) tr'
     \<and> audit_marks tr' = audit_marks tr @
         [(''install'', Some Begin), (''install'', if code = SUCCESS then Some Finished else None)]"
proof -
  obtain r t where out: "installed w args tr = (r, t)" by (metis surj_pair)
  then have between: "adds unaudited (record_event (iw_sink w) ''install'' Begin [(''node'', node)] tr) t"
    using installed_after_begin [OF assms(2,3), of w tr] by simp
  have "ended_mode (iw_sink w) ''install'' (r, t) = (code, tr')"
    using assms(1) by (simp add: install_def out)
  from ended_mode_marks [OF this] show ?thesis
    using adds_prefix [OF between] unaudited_marks [OF between] prefix_order.trans by auto
qed

lemma uninstall_marks:
  assumes "uninstall fuel w args tr = Some (code, tr')"
  shows "audit_marks tr' = audit_marks tr
     @ (if isl (iw_read w tr (arg_configuration args)) then [] else [(''uninstall'', Some Begin)])
     @ [(''uninstall'', if code = SUCCESS then Some Finished else None)]
   \<and> (\<forall>document. iw_read w tr (arg_configuration args) = Inr document \<longrightarrow>
        prefix (record_event (iw_sink w) ''uninstall'' Begin
          [(''service'', node_service_name (iw_registration w) (doc_node document))] tr) tr')"
proof -
  obtain r t where run: "uninstalled fuel w args tr = Some (r, t)"
    and out: "ended_mode (iw_sink w) ''uninstall'' (r, t) = (code, tr')"
    using assms by (auto simp: uninstall_def)
  note end_is = ended_mode_marks [OF out]
  show ?thesis
  proof (cases "iw_read w tr (arg_configuration args)")
    case (Inl reason)
    then show ?thesis using run end_is by (simp add: uninstalled_def)
  next
    case (Inr document)
    note between = uninstalled_after_begin [OF run Inr]
    show ?thesis
      using unaudited_marks [OF between] adds_prefix [OF between] end_is Inr
      by (auto intro: prefix_order.trans)
  qed
qed

section \<open>The property\<close>

text \<open>
  C22: What an installation or an uninstallation did is audited whole.  A command line read as an
  installation has its beginning audited, with the node, before anything is done to the machine, and
  then one end: finished where it exits 0, a failure where it is refused.  One read as an
  uninstallation has its beginning audited, with the service, before anything is done to the machine
  wherever the node's configuration reads, and the one end always.  Nothing else is said to the audit.
\<close>

theorem installation_is_audited_whole:
  assumes "main w argv fuel tr = Some (code, tr')" "parse (pw_purposes w) argv = Inr args"
    and "i = pw_install w"
  shows "(arg_mode args = Install \<longrightarrow>
        audit_marks tr' = audit_marks tr @
          [(''install'', Some Begin), (''install'', if code = SUCCESS then Some Finished else None)]
        \<and> (\<exists>node. arg_node args = Some node
             \<and> prefix (record_event (iw_sink i) ''install'' Begin [(''node'', node)] tr) tr'))
     \<and> (arg_mode args = Uninstall \<longrightarrow>
        audit_marks tr' = audit_marks tr
          @ (if isl (iw_read i tr (arg_configuration args)) then [] else [(''uninstall'', Some Begin)])
          @ [(''uninstall'', if code = SUCCESS then Some Finished else None)]
        \<and> (\<forall>document. iw_read i tr (arg_configuration args) = Inr document \<longrightarrow>
             prefix (record_event (iw_sink i) ''uninstall'' Begin
               [(''service'', node_service_name (iw_registration i) (doc_node document))] tr) tr'))"
proof (rule conjI; rule impI)
  assume mode: "arg_mode args = Install"
  have "legal args" using assms(2) by (rule parse_legal)
  then obtain node cluster where names: "arg_node args = Some node" "arg_cluster args = Some cluster"
    using mode by (auto simp: legal_def)
  have "install i args tr = (code, tr')"
    using assms mode by (simp add: main_def run_mode_def Let_def)
  from install_marks [OF this names] names
  show "audit_marks tr' = audit_marks tr @
      [(''install'', Some Begin), (''install'', if code = SUCCESS then Some Finished else None)]
    \<and> (\<exists>node. arg_node args = Some node
       \<and> prefix (record_event (iw_sink i) ''install'' Begin [(''node'', node)] tr) tr')" by simp
next
  assume "arg_mode args = Uninstall"
  then have "uninstall fuel i args tr = Some (code, tr')"
    using assms by (simp add: main_def run_mode_def Let_def)
  from uninstall_marks [OF this]
  show "audit_marks tr' = audit_marks tr
      @ (if isl (iw_read i tr (arg_configuration args)) then [] else [(''uninstall'', Some Begin)])
      @ [(''uninstall'', if code = SUCCESS then Some Finished else None)]
    \<and> (\<forall>document. iw_read i tr (arg_configuration args) = Inr document \<longrightarrow>
         prefix (record_event (iw_sink i) ''uninstall'' Begin
           [(''service'', node_service_name (iw_registration i) (doc_node document))] tr) tr')" .
qed

text \<open>An installation on the plain machine, told on a command line.\<close>

definition install_argv :: "string list" where
  "install_argv = [''--install'', ''--configuration'', ''/x/c/cluster.xmip'', ''--node'', ''N'',
     ''--cluster'', ''C'', ''--account'', ''xmip'']"

lemma install_argv_reads:
  "\<exists>args. parse plain_purposes install_argv = Inr args \<and> arg_mode args = Install"
  by (simp add: install_argv_def parse_def read_flag_def take_value_def starts_with_def nothing_read_def
      mode_of_def names_def placing_def Let_def)

theorem installation_is_audited_whole_witness:
  "\<exists>code tr'. main plain_process install_argv 1 [] = Some (code, tr')
     \<and> audit_marks tr' =
         [(''install'', Some Begin), (''install'', if code = SUCCESS then Some Finished else None)]"
proof -
  obtain args where reads: "parse (pw_purposes plain_process) install_argv = Inr args"
    and mode: "arg_mode args = Install"
    using install_argv_reads by (auto simp: plain_process_def)
  obtain code tr' where run: "main plain_process install_argv 1 [] = Some (code, tr')"
    using reads mode by (cases "install (pw_install plain_process) args []")
      (simp add: main_def run_mode_def Let_def)
  from installation_is_audited_whole [OF run reads refl] mode run show ?thesis by auto
qed

end
