(* ===== verification/Package.thy ===== *)
theory Package
  imports Built
begin

text \<open>
  The package around the program: \<open>lib.rs\<close>, which hands on the other repositories' crates, those of a
  feature only where the build has it, and \<open>build.rs\<close>, which gives the linker the Xmip mark where the
  build is for Windows with Microsoft's linker.
\<close>

section \<open>lib.rs\<close>

definition always_present :: "string list" where
  "always_present =
     [''xmip_abi'', ''xmip_configure'', ''xmip_context'', ''xmip_core'', ''xmip_journey'',
      ''xmip_message'', ''xmip_receive'', ''xmip_route'', ''xmip_runtime'', ''xmip_send'',
      ''xmip_stream'', ''xmip_transport'']"

definition behind_features :: "(string \<times> string) list" where
  "behind_features =
     [(''archive'', ''xmip_archive''), (''assign'', ''xmip_assign''),
      (''audit'', ''xmip_audit''), (''authenticate'', ''xmip_authenticate''),
      (''authorize'', ''xmip_authorize''), (''cluster'', ''xmip_cluster''),
      (''contract'', ''xmip_contract''), (''demote'', ''xmip_demote''),
      (''event'', ''xmip_event''), (''identify'', ''xmip_identify''),
      (''node'', ''xmip_node''), (''observe'', ''xmip_observe''), (''party'', ''xmip_party''),
      (''path'', ''xmip_path''), (''persist'', ''xmip_persist''),
      (''prepare'', ''xmip_prepare''), (''process'', ''xmip_process''),
      (''promote'', ''xmip_promote''), (''report'', ''xmip_report''),
      (''resilience'', ''xmip_resilience''), (''retain'', ''xmip_retain''),
      (''secret'', ''xmip_secret''), (''transform'', ''xmip_transform'')]"

definition re_exports :: "features \<Rightarrow> string list" where
  "re_exports f = always_present @ map snd (filter (\<lambda>(feature, crate). f feature) behind_features)"

text \<open>Each crate is handed on once, under one name, and a feature more never takes one away.\<close>

lemma re_exports_distinct: "distinct (re_exports f)"
proof -
  have "distinct (always_present @ map snd behind_features)" by code_simp
  then show ?thesis by (auto simp: re_exports_def distinct_map intro: inj_on_subset)
qed

lemma re_exports_grow: "(\<And>x. f x \<Longrightarrow> g x) \<Longrightarrow> set (re_exports f) \<subseteq> set (re_exports g)"
  by (auto simp: re_exports_def)

section \<open>build.rs\<close>

definition RESOURCE :: string where
  "RESOURCE = ''asset/brand/xmip-x.res''"

text \<open>The environment cargo gives the script answers a variable's text or that there is none.\<close>

definition build_script :: "(string \<Rightarrow> string option) \<Rightarrow> trace \<Rightarrow> trace" where
  "build_script env tr =
     (let tr1 = tr @ [Println (''cargo:rerun-if-changed='' @ RESOURCE)];
          windows = (env ''CARGO_CFG_TARGET_OS'' = Some ''windows'');
          msvc = (env ''CARGO_CFG_TARGET_ENV'' = Some ''msvc'')
      in case (windows, msvc, env ''CARGO_MANIFEST_DIR'') of
           (True, True, Some root) \<Rightarrow>
             tr1 @ [Println (''cargo:rustc-link-arg-bins=''
                      @ display (join_path (path_of root) (path_of RESOURCE)))]
         | _ \<Rightarrow> tr1)"

lemma build_script_links:
  "(\<exists>root. build_script env tr = tr @ [Println (''cargo:rerun-if-changed='' @ RESOURCE),
       Println (''cargo:rustc-link-arg-bins='' @ display (join_path (path_of root) (path_of RESOURCE)))])
   \<longleftrightarrow> env ''CARGO_CFG_TARGET_OS'' = Some ''windows'' \<and> env ''CARGO_CFG_TARGET_ENV'' = Some ''msvc''
     \<and> env ''CARGO_MANIFEST_DIR'' \<noteq> None"
  by (auto simp: build_script_def Let_def split: bool.splits option.splits)

end
