(* ===== verification/Unit_Tests.thy ===== *)
theory Unit_Tests
  imports Program
begin

text \<open>
  The repository's own unit tests of the modelled code, run on the model: each definition is one
  \<open>#[test]\<close> of \<open>.src/service\<close>, by its name, its inputs and the answers it asserts, and each lemma that
  the model passes it.  They check the definitions against what the program's authors expect of the
  code.  What a test reads of another repository's library is the test's parameter, and what it was
  given of it, such as the document a text reads as, a hypothesis of the lemma.
\<close>

section \<open>arguments.rs\<close>

fun words_of :: "string \<Rightarrow> string \<Rightarrow> string list" where
  "words_of [] word = (if word = [] then [] else [word])"
| "words_of (c # cs) word =
     (if c = CHR '' '' then (if word = [] then [] else [word]) @ words_of cs []
      else words_of cs (word @ [c]))"

definition parsed :: "declared_purpose \<Rightarrow> string \<Rightarrow> arguments outcome" where
  "parsed purposes told_line = parse purposes (words_of told_line [])"

definition reads_as :: "declared_purpose \<Rightarrow> string \<Rightarrow> (arguments \<Rightarrow> bool) \<Rightarrow> bool" where
  "reads_as purposes told_line test =
     (case parsed purposes told_line of Inl _ \<Rightarrow> False | Inr args \<Rightarrow> test args)"

definition every_parameter_is_named_and_the_mode_follows_the_switches :: "declared_purpose \<Rightarrow> bool" where
  "every_parameter_is_named_and_the_mode_follows_the_switches purposes \<longleftrightarrow>
     list_all (\<lambda>(told_line, test). reads_as purposes told_line test)
       [(''--configuration a.xmip'',
           \<lambda>a. arg_mode a = Service \<and> arg_configuration a = ''a.xmip'' \<and> arg_purpose a = Runtime),
        (''--console --purpose test --configuration a.xmip'',
           \<lambda>a. arg_mode a = Console \<and> arg_purpose a = Test),
        (''--definition --configuration a.xmip'', \<lambda>a. arg_mode a = Definition),
        (''--slice --node n --configuration cluster.xmip'',
           \<lambda>a. arg_mode a = Slice \<and> arg_node a = Some ''n''),
        (''--install --node n --cluster c --configuration cluster.xmip'',
           \<lambda>a. arg_mode a = Install \<and> arg_cluster a = Some ''c''),
        (''--slice --node n --cluster c --configuration cluster.xmip'', \<lambda>a. arg_cluster a = Some ''c''),
        (''--install --node n --cluster c --account xmip --configuration cluster.xmip'',
           \<lambda>a. arg_account a = Some ''xmip''),
        (''--slice --node n --bind h --nodes n,m --configuration cluster.xmip'',
           \<lambda>a. arg_bind a = Some ''h'' \<and> arg_nodes a = [''n'', ''m'']),
        (''--slice --node n --authority keep --configuration cluster.xmip'',
           \<lambda>a. arg_authority a = Some ''keep''),
        (''--listening --configuration node.xmip'', \<lambda>a. arg_mode a = Listening),
        (''--uninstall --configuration node.xmip'', \<lambda>a. arg_mode a = Uninstall)]"

definition refused_in :: "declared_purpose \<Rightarrow> string \<Rightarrow> string \<Rightarrow> bool" where
  "refused_in purposes told_line said =
     (case parsed purposes told_line of Inl problem \<Rightarrow> sublist said problem | Inr _ \<Rightarrow> False)"

definition what_it_does_not_take_is_refused_in_words :: "declared_purpose \<Rightarrow> bool" where
  "what_it_does_not_take_is_refused_in_words purposes \<longleftrightarrow>
     list_all (\<lambda>(told_line, said). refused_in purposes told_line said)
       [(''a.xmip'', ''a.xmip is not a parameter''),
        (''--configuration'', ''--configuration needs a value''),
        (''--configuration --console'', ''--configuration needs a value''),
        (''--console'', ''names no node configuration''),
        (''--configuration a --console --definition'', ''exclude each other''),
        (''--configuration a --install --uninstall'', ''exclude each other''),
        (''--configuration a --slice'', ''--slice needs --node''),
        (''--configuration a --install'', ''--install needs --node''),
        (''--configuration a --install --node n'', ''--install needs --cluster''),
        (''--configuration a --uninstall --node n'', ''--node is the node''),
        (''--configuration a --node n'', ''--node is the node''),
        (''--configuration a --definition --cluster c'', ''--cluster is''),
        (''--configuration a --slice --node n --account xmip'', ''--account is''),
        (''--configuration a --listening --slice'', ''exclude each other''),
        (''--configuration a --node'', ''--node needs a value''),
        (''--configuration a --slice --node n --bind h'', ''--bind needs --nodes''),
        (''--configuration a --slice --node n --nodes n'', ''--nodes needs --bind''),
        (''--configuration a --listening --bind h --nodes n'', ''place the Locations --slice prints''),
        (''--configuration a --install --node n --cluster c --authority k'',
           ''--authority is the folder --slice signs''),
        (''--configuration a --purpose Test'', ''test'')]"

lemma arguments_tests_pass:
  "every_parameter_is_named_and_the_mode_follows_the_switches plain_purposes"
  "what_it_does_not_take_is_refused_in_words plain_purposes"
  by code_simp+

section \<open>listening.rs\<close>

definition a_port_is_read_from_every_address_that_names_one :: bool where
  "a_port_is_read_from_every_address_that_names_one \<longleftrightarrow>
     port_of ''0.0.0.0:7401'' = Some 7401
   \<and> port_of ''[::]:7401'' = Some 7401
   \<and> port_of ''http://0.0.0.0:8080/orders'' = Some 8080
   \<and> port_of ''/var/xmip/in'' = None
   \<and> port_of ''D:/Xmip/in'' = None
   \<and> port_of ''host:0'' = None"

lemma listening_tests_pass: a_port_is_read_from_every_address_that_names_one
  unfolding a_port_is_read_from_every_address_that_names_one_def
  by (intro conjI; simp add: port_of_def address_authority_def split_once.simps starts_with_def
      rsplit_once_def parse_u16_def digit_value_def)

text \<open>Of the documents the two tests' texts slice and read as: the node's and the other's; the fetcher's.\<close>

definition the_operate_listener_and_each_started_receive_location_with_a_port_listen ::
  "('o, 'role) listening_api \<Rightarrow> transport list \<Rightarrow> 'o document \<Rightarrow> 'o document \<Rightarrow> bool" where
  "the_operate_listener_and_each_started_receive_location_with_a_port_listen api carried document other \<longleftrightarrow>
     listening api carried document =
       [''7401/tcp operate'', ''7443/tcp storage'', ''9100/tcp receive location orders'']
   \<and> ''7443/tcp storage'' \<notin> set (listening api carried other)"

definition a_location_fetching_from_the_parties_far_end_listens_on_nothing ::
  "('o, 'role) listening_api \<Rightarrow> features \<Rightarrow> 'o document \<Rightarrow> bool" where
  "a_location_fetching_from_the_parties_far_end_listens_on_nothing api f document \<longleftrightarrow>
     (f ''transport-sftp'' \<longrightarrow> listening api (transports f) document = [])"

lemma the_fetching_test_passes:
  assumes "doc_operate document = None" "doc_storage_listen document = None" "listens document = []"
    and "\<And>l. l \<in> set (doc_receive document) \<union> bound_at ` set (concat (doc_applications document)) \<Longrightarrow>
      chosen_by api Sftp_transport l \<and> (\<forall>t. chosen_by api t l \<longrightarrow> t = Sftp_transport) \<and> \<not> transport_waits api Sftp_transport l"
  shows "a_location_fetching_from_the_parties_far_end_listens_on_nothing api f document"
proof -
  have "\<not> location_waits api (transports f) l"
    if "f ''transport-sftp''" "l \<in> set (doc_receive document) \<union> bound_at ` set (concat (doc_applications document))" for l
  proof -
    have "Sftp_transport \<in> set (transports f)" using that(1) by (simp add: transports_def)
    then have "List.find (\<lambda>t. chosen_by api t l) (transports f) \<noteq> None"
      using assms(4) [OF that(2)] by (auto simp: find_None_iff)
    then obtain t where t: "List.find (\<lambda>t. chosen_by api t l) (transports f) = Some t" by auto
    then have "chosen_by api t l" by (auto simp: find_Some_iff)
    with t assms(4) [OF that(2)] show ?thesis by (auto simp: location_waits_def)
  qed
  then have "f ''transport-sftp'' \<Longrightarrow> started_locations api (transports f) document = []"
    by (auto simp: started_locations_def Let_def filter_empty_conv)
  then show ?thesis
    by (simp add: a_location_fetching_from_the_parties_far_end_listens_on_nothing_def listening_def
        listeners_def assms(1-3))
qed

definition receive_location :: "string \<Rightarrow> bool \<Rightarrow> string \<Rightarrow> unit location" where
  "receive_location name starts at =
     \<lparr>loc_name = name, loc_address = at, loc_start = starts, loc_other = ()\<rparr>"

definition listening_document :: "string \<Rightarrow> unit document" where
  "listening_document roles =
     \<lparr>doc_node = ''N'', doc_data_directory = \<lambda>p. p, doc_roles = Some roles,
      doc_operate = Some \<lparr>operate_listen = Some ''0.0.0.0:7401'', operate_key = Some ''node.key''\<rparr>,
      doc_storage_listen = Some ''0.0.0.0:7443'', doc_provision = \<lambda>_. None,
      doc_receive = [receive_location ''orders'' True ''tcp://0.0.0.0:9100'',
        receive_location ''stopped'' False ''tcp://0.0.0.0:9101'',
        receive_location ''drop'' True ''/var/xmip/in''],
      doc_applications = []\<rparr>"

definition listening_roles :: "(unit, string) listening_api" where
  "listening_roles =
     \<lparr>declared_roles = \<lambda>roles. Inr [roles], storage_role = ''storage'',
      chosen_by = \<lambda>_ _. False, transport_waits = \<lambda>_ _. True\<rparr>"

lemma the_listening_test_passes:
  "the_operate_listener_and_each_started_receive_location_with_a_port_listen listening_roles []
     (listening_document ''storage'') (listening_document ''receiving'')"
proof -
  have ports: "port_of ''0.0.0.0:7401'' = Some 7401" "port_of ''0.0.0.0:7443'' = Some 7443"
      "port_of ''tcp://0.0.0.0:9100'' = Some 9100" "port_of ''/var/xmip/in'' = None"
    by (simp_all add: port_of_def address_authority_def split_once.simps starts_with_def rsplit_once_def
        parse_u16_def digit_value_def)
  have unlistened: "listens document = []" if "doc_provision document NODE = None" for document :: "unit document"
    using that by (simp add: listens_def)
  have digits: "decimal 7401 = ''7401''" "decimal 7443 = ''7443''" "decimal 9100 = ''9100''"
    by (simp_all add: decimal.simps digit_char_def char_of_def bit_simps)
  show ?thesis
    unfolding the_operate_listener_and_each_started_receive_location_with_a_port_listen_def
    by (simp add: listening_def listeners_def unlistened digits with_port_def ports started_locations_def
        location_waits_def declares_storage_def listening_document_def listening_roles_def
        receive_location_def port_line_def Let_def)
qed

section \<open>definition.rs and install.rs\<close>

definition the_root_is_the_layout_the_executable_is_installed_in :: bool where
  "the_root_is_the_layout_the_executable_is_installed_in \<longleftrightarrow>
     installed_root (join_path (path_of ''/opt/xmip'') (path_of ''bin/xmip-service'')) = path_of ''/opt/xmip''
   \<and> installed_root (path_of ''/home/me/target/debug/xmip-service'') = path_of ''/home/me/target/debug''"

definition a_name_is_quoted_as_toml_says_it :: bool where
  "a_name_is_quoted_as_toml_says_it \<longleftrightarrow>
     quoted [CHR ''a'', dquote, CHR ''b'', backslash, CHR ''c'']
       = [dquote, CHR ''a'', backslash, dquote, CHR ''b'', backslash, backslash, CHR ''c'', dquote]"

lemma layout_tests_pass:
  the_root_is_the_layout_the_executable_is_installed_in
  a_name_is_quoted_as_toml_says_it
  by code_simp+

text \<open>Over \<open>xmip_runtime::registration\<close>, for any node.\<close>

definition each_manager_gets_its_own_form_of_the_one_definition :: "'d registration_api \<Rightarrow> string \<Rightarrow> bool" where
  "each_manager_gets_its_own_form_of_the_one_definition api node \<longleftrightarrow>
     (let service = with_variable api
            (for_node api node ''/opt/xmip/bin/xmip-service'' ''/opt/xmip/config/node.xmip'' ''/opt/xmip'')
            (directory_variable api) ''/opt/xmip/data/audit''
      in (case render api Systemd service of
            Inl _ \<Rightarrow> False
          | Inr unit_text \<Rightarrow>
              sublist ''ExecStart=/opt/xmip/bin/xmip-service --configuration'' unit_text
              \<and> sublist ''XMIP_AUDIT_DIRECTORY=/opt/xmip/data/audit'' unit_text)
       \<and> (case render api Launchd service of
            Inl _ \<Rightarrow> False
          | Inr plist \<Rightarrow> sublist (''<string>xmip-'' @ node @ ''</string>'') plist)
       \<and> (case render api Windows_scm service of
            Inl _ \<Rightarrow> False
          | Inr scm \<Rightarrow>
              starts_with scm (''create'' @ [newline] @ ''xmip-'' @ node @ [newline] @ ''binPath= '')
              \<and> sublist ([newline, newline] @ ''sc.exe'' @ [newline] @ ''description'' @ [newline]) scm
              \<and> sublist ([newline, newline] @ ''reg.exe'' @ [newline] @ ''add'' @ [newline]) scm)
       \<and> isl (render api No_manager service))"

text \<open>A setting's program and first argument stand on their lines behind a blank one.\<close>

lemma setting_is_said:
  assumes "args \<noteq> []" "(program, first # rest) \<in> set settings"
  shows "sublist ([newline, newline] @ program @ [newline] @ first @ [newline])
    (concat (map line args) @ concat (map (\<lambda>(program, args). [newline] @ line program @ concat (map line args)) settings))"
proof -
  obtain before after where settings: "settings = before @ (program, first # rest) # after"
    using assms(2) by (auto dest: split_list)
  let ?lines = "args @ concat (map (\<lambda>(program, args). [] # program # args) before)"
  obtain ls l where ls: "?lines = ls @ [l]"
    using assms(1) by (cases ?lines rule: rev_cases) auto
  have "concat (map line args) @ concat (map (\<lambda>(program, args). [newline] @ line program @ concat (map line args)) settings)
      = concat (map line (?lines @ [[], program, first]))
        @ concat (map line (rest @ concat (map (\<lambda>(program, args). [] # program # args) after)))"
    unfolding windows_lines settings by simp
  also have "concat (map line (?lines @ [[], program, first]))
      = (concat (map line ls) @ l) @ ([newline, newline] @ program @ [newline] @ first @ [newline])"
    unfolding ls by (simp add: line_def)
  finally show ?thesis unfolding sublist_def by (metis append.assoc)
qed

lemma the_definition_test_passes:
  assumes "service = with_variable api
      (for_node api node ''/opt/xmip/bin/xmip-service'' ''/opt/xmip/config/node.xmip'' ''/opt/xmip'')
      (directory_variable api) ''/opt/xmip/data/audit''"
    and "sublist ''ExecStart=/opt/xmip/bin/xmip-service --configuration'' (systemd_unit api service)"
    and "sublist ''XMIP_AUDIT_DIRECTORY=/opt/xmip/data/audit'' (systemd_unit api service)"
    and "sublist (''<string>xmip-'' @ node @ ''</string>'') (launchd_plist api service)"
    and windows: "windows_service_arguments api service = [''create'', ''xmip-'' @ node, ''binPath= '' @ binary] @ others"
    and "(''sc.exe'', ''description'' # described) \<in> set (windows_service_settings api service)"
    and "(''reg.exe'', ''add'' # added) \<in> set (windows_service_settings api service)"
  shows "each_manager_gets_its_own_form_of_the_one_definition api node"
proof -
  have "windows_service_arguments api service \<noteq> []" by (simp add: windows)
  note said = setting_is_said [OF this assms(6)] setting_is_said [OF this assms(7)]
  then have "sublist ([newline, newline] @ ''sc.exe'' @ [newline] @ ''description'' @ [newline])
      (projr (render api Windows_scm service))"
    "sublist ([newline, newline] @ ''reg.exe'' @ [newline] @ ''add'' @ [newline]) (projr (render api Windows_scm service))"
    by (simp_all add: render_def)
  moreover have "starts_with (projr (render api Windows_scm service))
      (''create'' @ [newline] @ ''xmip-'' @ node @ [newline] @ ''binPath= '')"
    by (simp add: render_def windows line_def starts_with_def)
  moreover have "render api Windows_scm service = Inr (projr (render api Windows_scm service))"
    by (simp add: render_def)
  ultimately show ?thesis
    unfolding each_manager_gets_its_own_form_of_the_one_definition_def Let_def assms(1) [symmetric]
    using assms(2-4) by (auto simp: render_def split: sum.splits)
qed

text \<open>
  Over slicing, signing and reading: the document's cluster and whether it is online are read from it.
\<close>

definition the_starter_slices_and_reads_as_the_service_reads_it ::
  "slicing \<Rightarrow> 'd registration_api \<Rightarrow> 'o read_document \<Rightarrow> ('o document \<Rightarrow> string) \<Rightarrow> ('o document \<Rightarrow> bool)
     \<Rightarrow> string \<Rightarrow> string \<Rightarrow> path \<Rightarrow> trace \<Rightarrow> bool" where
  "the_starter_slices_and_reads_as_the_service_reads_it sl api read cluster_named online cluster node place tr \<longleftrightarrow>
     (let source = starter api cluster node;
          at = join_path place (path_of NODE_FILE);
          made = tr @ [Made place]
      in case and_then (slice_of sl source node) (signed_beside sl made at cluster source) of
           Inl _ \<Rightarrow> False
         | Inr content \<Rightarrow>
             (case read (made @ [Saved at content]) (text_of at) of
                Inl _ \<Rightarrow> False
              | Inr document \<Rightarrow>
                  doc_node document = node \<and> cluster_named document = cluster \<and> \<not> online document
                  \<and> doc_roles document = Some ''storage'' \<and> doc_operate document = None
                  \<and> sublist (quoted (node_service_name api node)) source))"

lemma held_in_a_line: "before @ said \<in> set lines \<Longrightarrow> sublist said (concat (map line lines))"
  by (auto simp: line_def sublist_def dest!: split_list) (metis append.assoc)

lemma starter_names_its_service: "sublist (quoted (node_service_name api node)) (starter api cluster node)"
  unfolding starter_def Let_def by (rule held_in_a_line [where before = "''name = ''"]) simp

lemma the_starter_test_passes:
  assumes "slice_of sl (starter api cluster node) node = Inr piece"
    and "\<And>tr at. signed_beside sl tr at cluster (starter api cluster node) piece = Inr content"
    and "\<And>tr at. read (tr @ [Saved at content]) (text_of at) = Inr document"
    and "doc_node document = node" "cluster_named document = cluster" "\<not> online document"
    and "doc_roles document = Some ''storage''" "doc_operate document = None"
  shows "the_starter_slices_and_reads_as_the_service_reads_it sl api read cluster_named online cluster node place tr"
proof -
  have "read (tr @ [Made place, Saved at content]) (text_of at) = Inr document" for at
    using assms(3) [of "tr @ [Made place]"] by simp
  then show ?thesis
    by (simp add: the_starter_slices_and_reads_as_the_service_reads_it_def Let_def assms(1,2,4-8) starter_names_its_service)
qed

section \<open>account.rs\<close>

definition the_account_reads_the_configuration_and_its_key_and_writes_data_and_logs ::
  "'o read_document \<Rightarrow> path \<Rightarrow> trace \<Rightarrow> bool" where
  "the_account_reads_the_configuration_and_its_key_and_writes_data_and_logs read base tr \<longleftrightarrow>
     (let config = join_path base (path_of ''config''); file = join_path config (path_of ''node.xmip'')
      in case account_given read file tr of
           Inl _ \<Rightarrow> False
         | Inr folders \<Rightarrow> 3 < length folders
             \<and> folders ! 0 = \<lparr>folder = config, access = Reads\<rparr>
             \<and> folders ! 1 = \<lparr>folder = join_path config (path_of ''tls''), access = Keeps\<rparr>
             \<and> access (folders ! 2) = Writes
             \<and> folders ! 3 = \<lparr>folder = join_path base (path_of ''logs''), access = Writes\<rparr>)"

lemma the_account_test_passes:
  assumes "\<And>at. read tr at = Inr document"
    and "doc_operate document = Some \<lparr>operate_listen = listen, operate_key = Some ''tls/node.key''\<rparr>"
  shows "the_account_reads_the_configuration_and_its_key_and_writes_data_and_logs read (Path True base) tr"
proof -
  have places: "path_of ''config'' = Path False [''config'']" "path_of ''node.xmip'' = Path False [''node.xmip'']"
      "path_of ''tls'' = Path False [''tls'']" "path_of ''tls/node.key'' = Path False [''tls'', ''node.key'']"
    by (simp_all add: path_of_def starts_with_def Let_def)
  show ?thesis
    by (simp add: the_account_reads_the_configuration_and_its_key_and_writes_data_and_logs_def
        account_given_def assms places join_path_def parent_def uncurrent_def Let_def butlast_append
        numeral_2_eq_2 numeral_3_eq_3)
qed

section \<open>readiness.rs\<close>

definition systemd_hears_each_state_on_the_socket_it_named ::
  "(trace \<Rightarrow> socket_address \<Rightarrow> string \<Rightarrow> string option) \<Rightarrow> string \<Rightarrow> trace \<Rightarrow> bool" where
  "systemd_hears_each_state_on_the_socket_it_named send socket tr \<longleftrightarrow>
     list_all (\<lambda>state. notify Linux \<lparr>notify_socket = Some socket, send_datagram = send\<rparr> state tr
         = tr @ [Notified state])
       [''READY=1'', ''STOPPING=1'']"

lemma the_readiness_test_passes:
  "\<not> starts_with socket ''@'' \<Longrightarrow> (\<And>state. send tr (Pathname socket) state = None) \<Longrightarrow>
     systemd_hears_each_state_on_the_socket_it_named send socket tr"
  by (simp add: systemd_hears_each_state_on_the_socket_it_named_def notify_def notify_address_def)

section \<open>control_manager.rs\<close>

text \<open>Each control is answered, and what it sends is all that is received.\<close>

definition a_stop_and_a_shutdown_each_ask_for_the_drain_once :: bool where
  "a_stop_and_a_shutdown_each_ask_for_the_drain_once \<longleftrightarrow>
     list_all (\<lambda>(sent, by). answer sent = (Some (Stop by), No_error))
       [(Stop_control, ''the Service Control Manager''), (Shutdown_control, ''the system shutting down'')]"

definition nothing_else_the_manager_sends_stops_the_node :: bool where
  "nothing_else_the_manager_sends_stops_the_node \<longleftrightarrow>
     answer Interrogate_control = (None, No_error) \<and> answer Other_control = (None, Not_implemented)"

definition a_stop_after_the_drain_asks_for_nothing :: bool where
  "a_stop_after_the_drain_asks_for_nothing \<longleftrightarrow> snd (answer Stop_control) = No_error"

lemma control_manager_tests_pass:
  a_stop_and_a_shutdown_each_ask_for_the_drain_once
  nothing_else_the_manager_sends_stops_the_node
  a_stop_after_the_drain_asks_for_nothing
  by code_simp+

section \<open>built.rs\<close>

definition the_first_gate_reads_the_peer_after_every_credential :: "features \<Rightarrow> bool" where
  "the_first_gate_reads_the_peer_after_every_credential f \<longleftrightarrow>
     (f ''identify-ip'' \<longrightarrow> last (transport_identifiers f) = Ip_identifier)"

definition a_handshake_the_transport_verified_is_authenticated_by_mutual_tls :: "features \<Rightarrow> bool" where
  "a_handshake_the_transport_verified_is_authenticated_by_mutual_tls f \<longleftrightarrow>
     (f ''authenticate-mutual-tls'' \<longrightarrow> Mutual_tls_verifier \<in> set (authenticators f))"

text \<open>Over the policy's library: a new policy, what admits to it, and what it then allows.\<close>

definition each_location_the_node_starts_admits_what_its_gates_authenticated ::
  "features \<Rightarrow> 'policy \<Rightarrow> ('policy \<Rightarrow> admission \<Rightarrow> 'policy) \<Rightarrow> ('policy \<Rightarrow> admission \<Rightarrow> bool) \<Rightarrow> bool" where
  "each_location_the_node_starts_admits_what_its_gates_authenticated f new admit allows \<longleftrightarrow>
     (f ''authorize-location'' \<longrightarrow>
        (case location_policies f new admit of
           [] \<Rightarrow> False
         | build # _ \<Rightarrow>
             (let policy = build [''In''] [''Out''] in
                allows policy (Receive_anyone ''In'')
              \<and> \<not> allows policy (Receive_anyone ''Elsewhere'')
              \<and> allows policy (Send_anyone ''Out'')
              \<and> \<not> allows policy (Send_anyone ''Elsewhere''))))"

definition every_build_verifies_a_drop_folders_implied_identity :: "features \<Rightarrow> bool" where
  "every_build_verifies_a_drop_folders_implied_identity f \<longleftrightarrow>
     Circumstance_authenticator \<in> set (authenticators f)"

lemma built_tests_pass:
  "the_first_gate_reads_the_peer_after_every_credential f"
  "a_handshake_the_transport_verified_is_authenticated_by_mutual_tls f"
  "every_build_verifies_a_drop_folders_implied_identity f"
  by (simp_all add: the_first_gate_reads_the_peer_after_every_credential_def
      a_handshake_the_transport_verified_is_authenticated_by_mutual_tls_def
      every_build_verifies_a_drop_folders_implied_identity_def
      transport_identifiers_def authenticators_def)

lemma location_test_passes:
  assumes "\<And>p a x. allows (admit p a) x \<longleftrightarrow> x = a \<or> allows p x" "\<And>x. \<not> allows new x"
  shows "each_location_the_node_starts_admits_what_its_gates_authenticated f new admit allows"
  by (simp add: each_location_the_node_starts_admits_what_its_gates_authenticated_def location_policies_def
      location_policy_def admitted_all [of allows admit, OF assms(1)] assms(2) location_admits_started Let_def)

text \<open>Over what the libraries say of a transport, a store engine and the platform's key store.\<close>

definition each_transport_is_linked_by_the_schemes_a_location_is_entered_with ::
  "features \<Rightarrow> (transport \<Rightarrow> string) \<Rightarrow> (transport \<Rightarrow> string list) \<Rightarrow> (transport list \<Rightarrow> string list) \<Rightarrow> bool" where
  "each_transport_is_linked_by_the_schemes_a_location_is_entered_with f technology schemes scheme_problems \<longleftrightarrow>
     (let carried = transports f; names = map technology carried
      in (f ''transport-tcp'' \<longrightarrow> ''xmip-core-transport-tcp'' \<in> set names)
       \<and> list_all (\<lambda>name. starts_with name ''xmip-core-transport-'') names
       \<and> list_all (\<lambda>one. schemes one \<noteq> []) carried
       \<and> scheme_problems carried = [])"

lemma transports_test_passes:
  assumes "technology Tcp_transport = ''xmip-core-transport-tcp''"
    and "\<And>t. starts_with (technology t) ''xmip-core-transport-''" "\<And>t. schemes t \<noteq> []"
    and "\<And>ts. distinct ts \<Longrightarrow> scheme_problems ts = []"
  shows "each_transport_is_linked_by_the_schemes_a_location_is_entered_with f technology schemes scheme_problems"
proof -
  have "distinct (transports f)" by (auto simp: transports_def)
  moreover have "f ''transport-tcp'' \<Longrightarrow> Tcp_transport \<in> set (transports f)" by (simp add: transports_def)
  ultimately show ?thesis
    using assms
    by (force simp: each_transport_is_linked_by_the_schemes_a_location_is_entered_with_def Let_def list_all_iff)
qed

definition the_store_is_linked_where_the_build_carries_its_engine ::
  "features \<Rightarrow> platform \<Rightarrow> (store_engine \<Rightarrow> string) \<Rightarrow> string \<Rightarrow> string \<Rightarrow> bool" where
  "the_store_is_linked_where_the_build_carries_its_engine f os technology ENGINE PLATFORM_KEY_STORE \<longleftrightarrow>
     (f ''persist-rocksdb'' \<longrightarrow>
        map_option technology (engine f) = Some ENGINE \<and> PLATFORM_KEY_STORE \<in> set (key_stores f os))"

lemma store_test_passes:
  "feature_closed f \<Longrightarrow> os = Windows \<or> unix os \<Longrightarrow> technology RocksDb = ENGINE \<Longrightarrow>
     the_store_is_linked_where_the_build_carries_its_engine f os technology ENGINE
       (if os = Windows then ''xmip-core-secret-dpapi'' else ''xmip-core-secret-file'')"
  by (auto simp: the_store_is_linked_where_the_build_carries_its_engine_def engine_def key_stores_def
      feature_closed_def)

end
