(* ===== verification/Spec2Isabelle.thy ===== *)
theory Spec2Isabelle
  imports
    Prelude Rust_Text Rust_Path Effects
    Configuration Arguments Built Authority Orders Publication Listening
    Run Lifecycle Mailbox Publisher_States Publisher_Health
    Readiness Console Control_Manager
    Machine Account Definition Slice_Mode Install_Mode Installation Round_Trip Upgrade
    Program Audit_Trail Package Unit_Tests
begin

text \<open>
  A model of \<open>xmip-service\<close>, the program that runs one node of an Xmip cluster, and what it
  promises.  The program is \<open>.src/service/*.rs\<close>; everything it calls in another repository
  (\<open>xmip_runtime\<close>, \<open>xmip_configure\<close>, \<open>xmip_audit\<close>, \<open>xmip_observe\<close>, \<open>xmip_node\<close>, the technologies)
  and in the operating system is a parameter, a record of functions that answer from the trace so far.

  \<^bold>\<open>The program.\<close>  \<open>main\<close> reads its arguments and runs the one mode they name: the service itself, in a
  console or under the platform's service manager; \<open>--definition\<close>, \<open>--slice\<close> and \<open>--listening\<close>, which
  print or refuse; \<open>--install\<close> and \<open>--uninstall\<close>, which change the machine.  Running, the service starts
  the node, asks everything that can refuse it (its operate listeners, the cluster's authority, the
  watch on its orders), declares its process, says it is ready, and then takes orders and publishes
  what the node says of itself until it is told to stop; then it drains the node, records the stop and
  publishes it.  Every refusal goes to the audit.

  \<^bold>\<open>How it is modelled.\<close>  Every operation takes the effects so far, the trace, and returns a longer
  one (theory Effects).  Whatever the world answers (a clock, a refused write, a program's exit code)
  is a function of the trace, so it may differ each time.  \<open>Result<T, String>\<close> is a sum with the words
  of the error, \<open>?\<close> is \<open>and_then\<close> or \<open>then_do\<close>, a machine integer that can wrap is a word, a duration a
  natural number of nanoseconds.  A loop that may never end takes fuel and answers \<open>None\<close> when it runs
  out.

  \<^bold>\<open>Theories and sources.\<close>
  \<^item> Prelude, Rust_Text, Rust_Path: results, and what the code uses of Rust's \<open>str\<close>, number formatting
    and \<open>Path\<close>, with the lemmas the components share.
  \<^item> Effects: the effects, the trace and its projections (failures, waits, milestones), \<open>fail\<close>, \<open>record\<close>
    and \<open>kept\<close> of \<open>run.rs\<close>, the exit codes, and the contract \<open>print_or_refuse\<close> of the modes.
  \<^item> Configuration: the fields of a node's document the service reads.
  \<^item> Arguments: \<open>arguments.rs\<close>.  What \<open>parse\<close> accepts is exactly the legal records.
  \<^item> Built: \<open>built.rs\<close>, over any features and platform.  Authority: \<open>authority.rs\<close>.  Listening:
    \<open>listening.rs\<close>.
  \<^item> Orders: \<open>orders.rs\<close>, \<open>Told\<close> of \<open>run.rs\<close> and \<open>Telling\<close> of \<open>publication.rs\<close>.
  \<^item> Publication: \<open>publication.rs\<close>, every reading of the clock its own, and the contract \<open>paced\<close> the
    service has with its publisher.
  \<^item> Run: \<open>run.rs\<close>, with the channel the service is told by: what happens beside it while it waits, and
    what the run's closures, the watch and the board send of it.  \<open>serve\<close> is \<open>prepare\<close>, \<open>begin_serving\<close>, \<open>served\<close> and \<open>drain_and_say\<close>; the contract
    \<open>paced_service\<close> carries the facts of the loop.  Lifecycle: what a whole run promises.  Mailbox: any
    schedule of bursts sent to the service, and how it answers them.
    Publisher_States: the states a publisher reaches, their invariant, and the last publication.
    Publisher_Health: what it is meant to do about refused writes, an abstract machine \<open>health_step\<close>
    the code refines.
  \<^item> Readiness, Console, Control_Manager: \<open>readiness.rs\<close>, \<open>console.rs\<close>, \<open>control_manager.rs\<close>.  A run is
    told by the channel its signal handler (\<open>console_asks\<close>) or its control handler (\<open>answer\<close>) sends on.
    The statuses reported to Windows refine the manager's own state machine, \<open>manager_step\<close>.
  \<^item> Machine, Account, Definition, Slice_Mode, Install_Mode: the files of the machine replayed from the
    trace, \<open>account.rs\<close>, \<open>definition.rs\<close>, \<open>slice.rs\<close>, \<open>install.rs\<close>.  Installation: what installing and
    uninstalling promise.  Round_Trip: an installation undone.  Upgrade: an installation over an
    installation, and the slice \<open>--slice\<close> signs beside it.
  \<^item> Program: \<open>main.rs\<close>, and the properties of the process.  Audit_Trail: what the audit is told of an
    installation.  Package: \<open>lib.rs\<close> and \<open>build.rs\<close>, around the program.  Unit_Tests: the repository's own
    unit tests, as definitions the model is shown to pass; what one asks of another repository's library
    is its parameter.

  \<^bold>\<open>Contracts.\<close>  \<open>print_or_refuse\<close> (it only adds to the trace, exits 0 or \<open>REFUSED\<close>, and is refused
  exactly where it audited one failure of its action) is interpreted by \<open>--definition\<close>, \<open>--slice\<close>,
  \<open>--install\<close> and \<open>--listening\<close>; \<open>paced\<close> (quiet, and no wait longer than a round) by the publisher;
  \<open>paced_service\<close>, which extends it with the taking of orders, by the publisher and \<open>take_orders\<close>
  together.  The properties of a run rest on the last.  \<open>accountable_service\<close> adds to it what a turn
  takes and publishes, again met by the publisher and \<open>take_orders\<close>; \<open>delivering\<close> is a receiver that
  delivers a schedule, met by the channel \<open>mailbox\<close>; and \<open>answering_service\<close>, the two together, carries
  what the service answers each burst.  \<open>registrar\<close> is what registering and deregistering promise each
  other, interpreted on systemd's and on launchd's.

  \<^bold>\<open>What is shown.\<close>
  \<^item> The process: two exit codes, every refusal audited, it ends.
  \<^item> A run: one order of life, a refused node drained, what refused it audited; the first
    stop it was told, how long its drain took and what it counted recorded and published, each wait
    within a round, an act published at once, and, told any schedule of bursts, each of them answered in
    its turn up to the first stop.
  \<^item> The publisher: a machine of three states, well, refused and told, as long as the clock stands still
    while a write is dealt with; without that, at most one failure audited in a stretch of refusals, at
    least one where a refusal is still refused a round later, the last publication written within \<open>ATTEMPTS\<close>; and where it does
    less than its comments say (a failure marked as audited that was not, a refusal that waits for the
    round).
  \<^item> The service managers: the Windows states, systemd's two notifications in order, and who stopped each: the
    first signal, control or end of input of its last wait that asks for a stop, by its own name.
  \<^item> The modes: arguments round trip, nothing is overwritten by an installation and nothing but the
    registration removed by an uninstallation, both audited whole, registrations step by step and
    undone, an installation run again changing no file, the same slice signed by it and by
    \<open>--slice\<close>, a Windows service deleted only once seen stopped, the account's folders, ports and
    definitions reading back.

  \<^bold>\<open>Bounds and fuel.\<close>  \<open>ATTEMPTS\<close> is one more than the \<open>AGAIN\<close> sleeps a round \<open>EVERY\<close> has room for, and
  \<open>DRAIN_LOOKS\<close> two more than the \<open>LOOK\<close> sleeps in \<open>DRAIN\<close>; under a lawful clock (readings never go
  back, a sleep lasts what it was asked to) both are shown to be enough.  The fuel of \<open>served\<close> is a
  number of waits: a service that is told to stop once it has waited \<open>n\<close> times returns with any fuel
  above \<open>n\<close>; one that is never told to stop never returns, as in the code.  What a loop answers once it
  answers, it answers with any more fuel (\<open>settles\<close>), so the result is the code's and not the fuel's.

  \<^bold>\<open>Hypotheses about what is not the program.\<close>  A lawful clock, as the standard library documents
  \<open>Instant\<close> and \<open>sleep\<close>; a policy that admits what it was told to; a \<open>ready\<close> and a \<open>stopping\<close>
  that only add to the trace and publish nothing; a definition that keeps its node's
  name; for an installation undone, a machine whose programs end well, and for one run again, one that
  also refuses no write and reads the configuration the same (\<open>obliging\<close>).  Each is shown to be met by a concrete instance.

  \<^bold>\<open>Not modelled.\<close>  Nothing of \<open>.src\<close> but its integration tests is left out.  The panic
  watch of the audit, the signal handler, the thread that reads the console's input and the directory
  watch are other code's: what they send is modelled, what happens and when is any function of the trace.  The audit and
  the folders an authority's signing makes are the libraries'.  Paths are Unix paths, by components, so
  spellings such as a doubled separator are not told apart where Rust's comparison does not either; two
  paths are one file only where they are the same path, so links are not followed.  Text is a list of
  characters; where Rust would refuse bytes that are no UTF-8 the read's error answers.  The integration tests, which
  drive the program from outside, the PowerShell module, the packages and the deployment are not the program.
\<close>

end
